theory Spec2Isabelle
  imports Complex_Main "HOL-Library.AList" "HOL-Library.Char_ord" "HOL-Library.List_Lexorder"
begin

section \<open>Instruments of the metrics client library\<close>

text \<open>
  \<^verbatim>\<open>metrics.py\<close> declares its instruments with the Prometheus client library and updates
  them through \<^verbatim>\<open>labels(...)\<close>, \<^verbatim>\<open>inc()\<close>, \<^verbatim>\<open>dec()\<close>, \<^verbatim>\<open>set(v)\<close> and \<^verbatim>\<open>observe(v)\<close>.
  The library is not part of the repository; this section fixes the semantics of those
  five calls as the library documents them. Sample values are Python floats in the
  library; here they are real numbers, so the rounding of float arithmetic, infinities and
  NaN are abstracted. The one conversion the library makes itself, \<^verbatim>\<open>float(value)\<close> in
  \<^verbatim>\<open>Gauge.set\<close>, is modelled with its rounding and its \<^verbatim>\<open>OverflowError\<close>.

  A call either returns, \<open>Inr s\<close> with the state \<open>s\<close> it leaves, or raises, \<open>Inl (e, s)\<close>
  with the exception \<open>e\<close> and the state \<open>s\<close> as it is at the raise: what the call had already
  updated stays updated.
\<close>

datatype error = ValueError | KeyError | IndexError | OverflowError

type_synonym 's outcome = "(error \<times> 's) + 's"

definition state_after :: "'s outcome \<Rightarrow> 's" where
  "state_after res = (case res of Inl (e, s) \<Rightarrow> s | Inr s \<Rightarrow> s)"

type_synonym label_values = "string list"

text \<open>
  A labelled instrument keeps one child per tuple of label values, in a dictionary that
  remembers insertion order: an association list here.
\<close>

type_synonym 'v family = "(label_values \<times> 'v) list"

text \<open>
  \<^verbatim>\<open>metric.labels(**labelkwargs)\<close>: refused when the instrument was declared without label
  names or when the keyword names are not exactly the declared ones; otherwise the child
  of the label values (ordered as declared) is returned, created first when it does not
  exist yet.
\<close>

definition labels ::
  "string list \<Rightarrow> (string \<times> string) list \<Rightarrow> 'v \<Rightarrow> 'v family \<Rightarrow>
     (error \<times> 'v family) + (label_values \<times> 'v family)" where
  "labels labelnames labelkwargs new fam =
     (if labelnames = [] then Inl (ValueError, fam)
      else if sort (map fst labelkwargs) \<noteq> sort labelnames then Inl (ValueError, fam)
      else (case those (map (map_of labelkwargs) labelnames) of
              None \<Rightarrow> Inl (KeyError, fam)
            | Some labelvalues \<Rightarrow>
                Inr (labelvalues,
                     if labelvalues \<in> fst ` set fam then fam
                     else fam @ [(labelvalues, new)])))"

text \<open>A method call on the child object that \<^verbatim>\<open>labels\<close> returned: the child is updated in place.\<close>

definition on_child ::
  "label_values \<Rightarrow> ('v \<Rightarrow> 'v outcome) \<Rightarrow> 'v family \<Rightarrow> 'v family outcome" where
  "on_child labelvalues f fam =
     (case map_of fam labelvalues of
        None \<Rightarrow> Inl (KeyError, fam)
      | Some v \<Rightarrow> (case f v of
                    Inl (e, v1) \<Rightarrow> Inl (e, AList.update labelvalues v1 fam)
                  | Inr v' \<Rightarrow> Inr (AList.update labelvalues v' fam)))"

text \<open>\<^verbatim>\<open>Counter.inc(amount=1)\<close> refuses a negative amount.\<close>

definition counter_inc :: "real \<Rightarrow> real \<Rightarrow> real outcome" where
  "counter_inc amount v = (if amount < 0 then Inl (ValueError, v) else Inr (v + amount))"

text \<open>\<^verbatim>\<open>Gauge.inc(amount=1)\<close> and \<^verbatim>\<open>Gauge.dec(amount=1)\<close>.\<close>

definition gauge_inc :: "real \<Rightarrow> real \<Rightarrow> real outcome" where
  "gauge_inc amount v = Inr (v + amount)"

definition gauge_dec :: "real \<Rightarrow> real \<Rightarrow> real outcome" where
  "gauge_dec amount v = Inr (v - amount)"

text \<open>
  Python's \<^verbatim>\<open>float(n)\<close> on an \<^verbatim>\<open>int\<close>: an integer of at most 53 bits is converted exactly;
  a longer one is rounded to 53 significant bits, a tie going to the even neighbour, and
  \<^verbatim>\<open>OverflowError\<close> is raised when the rounded value reaches \<open>2 ^ 1024\<close>.
  \<open>bit_length\<close> is \<^verbatim>\<open>int.bit_length\<close>.
\<close>

fun bit_length :: "nat \<Rightarrow> nat" where
  "bit_length 0 = 0"
| "bit_length (Suc n) = Suc (bit_length (Suc n div 2))"

definition float_limit :: nat where
  "float_limit = 2 ^ 1024"

definition py_float :: "int \<Rightarrow> error + real" where
  "py_float n =
     (let a = nat \<bar>n\<bar>; e = bit_length a in
      if e \<le> 53 then Inr (of_int n)
      else
        (let shift = e - 53;
             q = a div 2 ^ shift;
             rest = a mod 2 ^ shift;
             half = 2 ^ (shift - 1);
             q' = (if half < rest \<or> (rest = half \<and> odd q) then q + 1 else q);
             m = q' * 2 ^ shift
         in if float_limit \<le> m then Inl OverflowError
            else Inr (if n < 0 then - real m else real m)))"

text \<open>
  \<^verbatim>\<open>Gauge.set(value)\<close> stores \<^verbatim>\<open>float(value)\<close>; the helpers pass it an \<^verbatim>\<open>int\<close>. When the
  conversion raises, the gauge keeps its value.
\<close>

definition gauge_set :: "int \<Rightarrow> real \<Rightarrow> real outcome" where
  "gauge_set value v = (case py_float value of Inl e \<Rightarrow> Inl (e, v) | Inr x \<Rightarrow> Inr x)"

text \<open>
  A histogram keeps the sum of its observations and one count per upper bound. The
  library appends the bound \<open>+Inf\<close> to the declared bucket boundaries.
\<close>

datatype bound = Finite real | PlusInf

fun le_bound :: "real \<Rightarrow> bound \<Rightarrow> bool" where
  "le_bound amount (Finite b) = (amount \<le> b)"
| "le_bound amount PlusInf = True"

definition prepare_buckets :: "real list \<Rightarrow> bound list" where
  "prepare_buckets source_buckets = map Finite source_buckets @ [PlusInf]"

record histogram =
  h_sum :: real
  h_buckets :: "real list"

definition new_histogram :: "bound list \<Rightarrow> histogram" where
  "new_histogram upper_bounds = \<lparr>h_sum = 0, h_buckets = replicate (length upper_bounds) 0\<rparr>"

text \<open>
  \<^verbatim>\<open>Histogram.observe(amount)\<close>: the sum grows by the amount, then the loop over
  \<^verbatim>\<open>enumerate(upper_bounds)\<close> increments the bucket of the first bound with
  \<^verbatim>\<open>amount <= bound\<close> and stops.
\<close>

fun find_bucket :: "real \<Rightarrow> bound list \<Rightarrow> nat \<Rightarrow> nat option" where
  "find_bucket amount [] i = None"
| "find_bucket amount (b # bs) i =
     (if le_bound amount b then Some i else find_bucket amount bs (Suc i))"

definition histogram_observe :: "bound list \<Rightarrow> real \<Rightarrow> histogram \<Rightarrow> histogram outcome" where
  "histogram_observe upper_bounds amount h =
     (let h1 = h\<lparr>h_sum := h_sum h + amount\<rparr> in
      case find_bucket amount upper_bounds 0 of
        None \<Rightarrow> Inr h1
      | Some i \<Rightarrow>
          if i < length (h_buckets h1)
          then Inr (h1\<lparr>h_buckets := (h_buckets h1)[i := h_buckets h1 ! i + 1]\<rparr>)
          else Inl (IndexError, h1))"

text \<open>The chained calls of the source: \<^verbatim>\<open>m.labels(...).inc()\<close>, \<^verbatim>\<open>m.labels(...).set(v)\<close>, \<^verbatim>\<open>m.labels(...).observe(v)\<close>.\<close>

definition labels_then ::
  "string list \<Rightarrow> (string \<times> string) list \<Rightarrow> 'v \<Rightarrow> ('v \<Rightarrow> 'v outcome) \<Rightarrow> 'v family \<Rightarrow>
     'v family outcome" where
  "labels_then labelnames labelkwargs new f fam =
     (case labels labelnames labelkwargs new fam of
        Inl (e, fam0) \<Rightarrow> Inl (e, fam0)
      | Inr (labelvalues, fam1) \<Rightarrow> on_child labelvalues f fam1)"

section \<open>The instruments declared by metrics.py\<close>

text \<open>Label names and bucket boundaries are fixed by the declarations at module load.\<close>

definition resume_uploads_total_labelnames :: "string list" where
  "resume_uploads_total_labelnames = [''status'', ''file_type'']"

definition resume_parse_duration_labelnames :: "string list" where
  "resume_parse_duration_labelnames = [''file_type'']"

definition resume_parse_duration_buckets :: "real list" where
  "resume_parse_duration_buckets = [0.1, 0.5, 1.0, 2.0, 5.0, 10.0, 30.0]"

definition jd_created_total_labelnames :: "string list" where
  "jd_created_total_labelnames = [''status'']"

definition matching_requests_total_labelnames :: "string list" where
  "matching_requests_total_labelnames = [''status'', ''source'']"

definition matching_duration_labelnames :: "string list" where
  "matching_duration_labelnames = [''batch_size'']"

definition matching_duration_buckets :: "real list" where
  "matching_duration_buckets = [1.0, 5.0, 10.0, 30.0, 60.0, 120.0, 300.0, 600.0]"

definition ai_agent_calls_total_labelnames :: "string list" where
  "ai_agent_calls_total_labelnames = [''endpoint'', ''status'']"

definition ai_agent_latency_labelnames :: "string list" where
  "ai_agent_latency_labelnames = [''endpoint'']"

definition ai_agent_latency_buckets :: "real list" where
  "ai_agent_latency_buckets = [1.0, 5.0, 10.0, 30.0, 60.0, 120.0, 300.0]"

definition match_scores_buckets :: "real list" where
  "match_scores_buckets = [10, 20, 30, 40, 50, 60, 70, 80, 90, 100]"

definition candidates_by_fit_labelnames :: "string list" where
  "candidates_by_fit_labelnames = [''category'']"

definition user_logins_total_labelnames :: "string list" where
  "user_logins_total_labelnames = [''status'']"

definition user_registrations_total_labelnames :: "string list" where
  "user_registrations_total_labelnames = [''status'']"

definition workflows_started_total_labelnames :: "string list" where
  "workflows_started_total_labelnames = [''type'']"

definition workflows_completed_total_labelnames :: "string list" where
  "workflows_completed_total_labelnames = [''status'']"

definition workflow_duration_labelnames :: "string list" where
  "workflow_duration_labelnames = [''resume_count'']"

definition workflow_duration_buckets :: "real list" where
  "workflow_duration_buckets = [30, 60, 120, 300, 600, 900, 1800]"

definition file_storage_bytes_labelnames :: "string list" where
  "file_storage_bytes_labelnames = [''type'']"

definition file_operations_total_labelnames :: "string list" where
  "file_operations_total_labelnames = [''operation'', ''status'']"

definition db_operations_total_labelnames :: "string list" where
  "db_operations_total_labelnames = [''collection'', ''operation'']"

definition db_operation_duration_labelnames :: "string list" where
  "db_operation_duration_labelnames = [''collection'', ''operation'']"

definition db_operation_duration_buckets :: "real list" where
  "db_operation_duration_buckets = [0.001, 0.005, 0.01, 0.025, 0.05, 0.1, 0.25, 0.5, 1.0]"

text \<open>
  The module's global state: one field per instrument, named as in the source. An
  instrument declared without labels holds its value itself.
\<close>

record registry =
  app_info :: "(string \<times> string) list"
  resume_uploads_total :: "real family"
  resume_parse_duration :: "histogram family"
  resumes_total :: real
  jd_created_total :: "real family"
  jd_total :: real
  matching_requests_total :: "real family"
  matching_duration :: "histogram family"
  ai_agent_calls_total :: "real family"
  ai_agent_latency :: "histogram family"
  match_scores :: histogram
  candidates_by_fit :: "real family"
  user_logins_total :: "real family"
  active_users :: real
  user_registrations_total :: "real family"
  workflows_started_total :: "real family"
  workflows_completed_total :: "real family"
  workflow_duration :: "histogram family"
  workflow_in_progress :: real
  file_storage_bytes :: "real family"
  file_operations_total :: "real family"
  db_operations_total :: "real family"
  db_operation_duration :: "histogram family"

text \<open>The state right after the module is loaded: no child exists, every value is zero.\<close>

definition fresh_registry :: registry where
  "fresh_registry =
     \<lparr>app_info = [(''version'', ''1.0.0''), (''service'', ''backend-api''),
                  (''environment'', ''production'')],
      resume_uploads_total = [],
      resume_parse_duration = [],
      resumes_total = 0,
      jd_created_total = [],
      jd_total = 0,
      matching_requests_total = [],
      matching_duration = [],
      ai_agent_calls_total = [],
      ai_agent_latency = [],
      match_scores = new_histogram (prepare_buckets match_scores_buckets),
      candidates_by_fit = [],
      user_logins_total = [],
      active_users = 0,
      user_registrations_total = [],
      workflows_started_total = [],
      workflows_completed_total = [],
      workflow_duration = [],
      workflow_in_progress = 0,
      file_storage_bytes = [],
      file_operations_total = [],
      db_operations_total = [],
      db_operation_duration = []\<rparr>"

section \<open>The helper functions of metrics.py\<close>

definition track_resume_upload :: "bool \<Rightarrow> string \<Rightarrow> registry \<Rightarrow> registry outcome" where
  "track_resume_upload success file_type r =
     (let status = (if success then ''success'' else ''failed'') in
      case labels_then resume_uploads_total_labelnames
             [(''status'', status), (''file_type'', file_type)] 0 (counter_inc 1)
             (resume_uploads_total r) of
        Inl (e, fam) \<Rightarrow> Inl (e, r\<lparr>resume_uploads_total := fam\<rparr>)
      | Inr fam \<Rightarrow> Inr (r\<lparr>resume_uploads_total := fam\<rparr>))"

definition track_matching_request :: "bool \<Rightarrow> string \<Rightarrow> registry \<Rightarrow> registry outcome" where
  "track_matching_request success source r =
     (let status = (if success then ''success'' else ''failed'') in
      case labels_then matching_requests_total_labelnames
             [(''status'', status), (''source'', source)] 0 (counter_inc 1)
             (matching_requests_total r) of
        Inl (e, fam) \<Rightarrow> Inl (e, r\<lparr>matching_requests_total := fam\<rparr>)
      | Inr fam \<Rightarrow> Inr (r\<lparr>matching_requests_total := fam\<rparr>))"

definition track_ai_agent_call :: "string \<Rightarrow> bool \<Rightarrow> real \<Rightarrow> registry \<Rightarrow> registry outcome" where
  "track_ai_agent_call endpoint success duration r =
     (let status = (if success then ''success'' else ''failed'') in
      case labels_then ai_agent_calls_total_labelnames
             [(''endpoint'', endpoint), (''status'', status)] 0 (counter_inc 1)
             (ai_agent_calls_total r) of
        Inl (e, calls) \<Rightarrow> Inl (e, r\<lparr>ai_agent_calls_total := calls\<rparr>)
      | Inr calls \<Rightarrow>
          (let r1 = r\<lparr>ai_agent_calls_total := calls\<rparr>;
               upper_bounds = prepare_buckets ai_agent_latency_buckets in
           case labels_then ai_agent_latency_labelnames [(''endpoint'', endpoint)]
                  (new_histogram upper_bounds) (histogram_observe upper_bounds duration)
                  (ai_agent_latency r1) of
             Inl (e, lat) \<Rightarrow> Inl (e, r1\<lparr>ai_agent_latency := lat\<rparr>)
           | Inr lat \<Rightarrow> Inr (r1\<lparr>ai_agent_latency := lat\<rparr>)))"

definition track_match_score :: "real \<Rightarrow> registry \<Rightarrow> registry outcome" where
  "track_match_score score r =
     (case histogram_observe (prepare_buckets match_scores_buckets) score (match_scores r) of
        Inl (e, h) \<Rightarrow> Inl (e, r\<lparr>match_scores := h\<rparr>)
      | Inr h \<Rightarrow> Inr (r\<lparr>match_scores := h\<rparr>))"

text \<open>
  The three \<^verbatim>\<open>set\<close> calls run in order; when one raises, the series set before it keep
  their new values and the child just created by \<^verbatim>\<open>labels\<close> exists.
\<close>

definition update_fit_categories :: "int \<Rightarrow> int \<Rightarrow> int \<Rightarrow> registry \<Rightarrow> registry outcome" where
  "update_fit_categories best_fit partial_fit not_fit r =
     (case labels_then candidates_by_fit_labelnames [(''category'', ''Best Fit'')] 0
             (gauge_set best_fit) (candidates_by_fit r) of
        Inl (e, fam) \<Rightarrow> Inl (e, r\<lparr>candidates_by_fit := fam\<rparr>)
      | Inr fam1 \<Rightarrow>
     (case labels_then candidates_by_fit_labelnames [(''category'', ''Partial Fit'')] 0
             (gauge_set partial_fit) fam1 of
        Inl (e, fam) \<Rightarrow> Inl (e, r\<lparr>candidates_by_fit := fam\<rparr>)
      | Inr fam2 \<Rightarrow>
     (case labels_then candidates_by_fit_labelnames [(''category'', ''Not Fit'')] 0
             (gauge_set not_fit) fam2 of
        Inl (e, fam) \<Rightarrow> Inl (e, r\<lparr>candidates_by_fit := fam\<rparr>)
      | Inr fam3 \<Rightarrow> Inr (r\<lparr>candidates_by_fit := fam3\<rparr>))))"

definition track_user_login :: "bool \<Rightarrow> registry \<Rightarrow> registry outcome" where
  "track_user_login success r =
     (let status = (if success then ''success'' else ''failed'') in
      case labels_then user_logins_total_labelnames [(''status'', status)] 0 (counter_inc 1)
             (user_logins_total r) of
        Inl (e, fam) \<Rightarrow> Inl (e, r\<lparr>user_logins_total := fam\<rparr>)
      | Inr fam \<Rightarrow> Inr (r\<lparr>user_logins_total := fam\<rparr>))"

text \<open>
  \<^verbatim>\<open>track_workflow\<close>: the two \<^verbatim>\<open>if\<close> statements run one after the other, the second on the
  state the first one left.
\<close>

definition workflow_started_branch :: "string \<Rightarrow> registry \<Rightarrow> registry outcome" where
  "workflow_started_branch workflow_type r =
     (case labels_then workflows_started_total_labelnames [(''type'', workflow_type)] 0
             (counter_inc 1) (workflows_started_total r) of
        Inl (e, fam) \<Rightarrow> Inl (e, r\<lparr>workflows_started_total := fam\<rparr>)
      | Inr fam \<Rightarrow>
          (case gauge_inc 1 (workflow_in_progress r) of
             Inl (e, g) \<Rightarrow> Inl (e, r\<lparr>workflows_started_total := fam, workflow_in_progress := g\<rparr>)
           | Inr g \<Rightarrow> Inr (r\<lparr>workflows_started_total := fam, workflow_in_progress := g\<rparr>)))"

definition workflow_completed_branch :: "string \<Rightarrow> registry \<Rightarrow> registry outcome" where
  "workflow_completed_branch status r =
     (case labels_then workflows_completed_total_labelnames [(''status'', status)] 0
             (counter_inc 1) (workflows_completed_total r) of
        Inl (e, fam) \<Rightarrow> Inl (e, r\<lparr>workflows_completed_total := fam\<rparr>)
      | Inr fam \<Rightarrow>
          (case gauge_dec 1 (workflow_in_progress r) of
             Inl (e, g) \<Rightarrow>
               Inl (e, r\<lparr>workflows_completed_total := fam, workflow_in_progress := g\<rparr>)
           | Inr g \<Rightarrow> Inr (r\<lparr>workflows_completed_total := fam, workflow_in_progress := g\<rparr>)))"

definition track_workflow ::
  "bool \<Rightarrow> bool \<Rightarrow> string \<Rightarrow> string \<Rightarrow> registry \<Rightarrow> registry outcome" where
  "track_workflow started completed status workflow_type r =
     (case (if started then workflow_started_branch workflow_type r else Inr r) of
        Inl x \<Rightarrow> Inl x
      | Inr r1 \<Rightarrow> (if completed then workflow_completed_branch status r1 else Inr r1))"

text \<open>
  Keyword arguments with defaults: an argument the caller leaves out is \<open>None\<close> and takes
  the default of the signature.
\<close>

definition arg_or :: "'a \<Rightarrow> 'a option \<Rightarrow> 'a" where
  "arg_or dflt a = (case a of None \<Rightarrow> dflt | Some x \<Rightarrow> x)"

definition call_track_matching_request ::
  "bool \<Rightarrow> string option \<Rightarrow> registry \<Rightarrow> registry outcome" where
  "call_track_matching_request success source r =
     track_matching_request success (arg_or ''manual'' source) r"

definition call_track_workflow ::
  "bool option \<Rightarrow> bool option \<Rightarrow> string option \<Rightarrow> string option \<Rightarrow> registry \<Rightarrow>
     registry outcome" where
  "call_track_workflow started completed status workflow_type r =
     track_workflow (arg_or False started) (arg_or False completed)
       (arg_or ''success'' status) (arg_or ''manual'' workflow_type) r"

section \<open>Reading the instruments\<close>

text \<open>
  What a snapshot shows: the sample of a labelled series is the entry of its label values
  (\<open>map_of fam k\<close>, \<open>None\<close> when the series does not exist yet). A series that does not
  exist yet starts from the value of a new child.
\<close>

definition child_or :: "'v \<Rightarrow> 'v family \<Rightarrow> label_values \<Rightarrow> 'v" where
  "child_or new fam k = (case map_of fam k of None \<Rightarrow> new | Some v \<Rightarrow> v)"

definition status_label :: "bool \<Rightarrow> string" where
  "status_label success = (if success then ''success'' else ''failed'')"

text \<open>The family after one more event on the series \<open>k\<close>.\<close>

definition bump :: "label_values \<Rightarrow> real family \<Rightarrow> real family" where
  "bump k fam = AList.update k (child_or 0 fam k + 1) fam"


text \<open>
  Histograms: the bucket an observation falls in is the first declared boundary that is not
  below it, the overflow bucket \<open>+Inf\<close> (index \<open>length source_buckets\<close>) when there is none.
  \<open>h_count\<close> is the number of observations a histogram holds.
\<close>

definition bucket_index :: "real \<Rightarrow> real list \<Rightarrow> nat" where
  "bucket_index amount source_buckets =
     length (takeWhile (\<lambda>b. \<not> amount \<le> b) source_buckets)"

definition observed :: "real list \<Rightarrow> real \<Rightarrow> histogram \<Rightarrow> histogram" where
  "observed source_buckets amount h =
     h\<lparr>h_sum := h_sum h + amount,
       h_buckets := (h_buckets h)[bucket_index amount source_buckets :=
                       h_buckets h ! bucket_index amount source_buckets + 1]\<rparr>"

definition h_count :: "histogram \<Rightarrow> real" where
  "h_count h = sum_list (h_buckets h)"

text \<open>Sums over the series of a counter: all of them, and those of one status.\<close>

definition series_total :: "real family \<Rightarrow> real" where
  "series_total fam = sum_list (map snd fam)"

definition has_status :: "string \<Rightarrow> label_values \<Rightarrow> bool" where
  "has_status st k = (case k of [] \<Rightarrow> False | s # _ \<Rightarrow> s = st)"

definition status_total :: "string \<Rightarrow> real family \<Rightarrow> real" where
  "status_total st fam = sum_list (map snd (filter (\<lambda>(k, v). has_status st k) fam))"

text \<open>
  A counter has not decreased when every series it had is still there with a value at
  least as large.
\<close>

definition series_le :: "real family \<Rightarrow> real family \<Rightarrow> bool" where
  "series_le fam fam' =
     (\<forall>k \<in> set (map fst fam).
        case (map_of fam k, map_of fam' k) of
          (Some v, Some v') \<Rightarrow> v \<le> v'
        | _ \<Rightarrow> False)"

definition counters_nondecreasing :: "registry \<Rightarrow> registry \<Rightarrow> bool" where
  "counters_nondecreasing r r' =
     (series_le (resume_uploads_total r) (resume_uploads_total r') \<and>
      series_le (jd_created_total r) (jd_created_total r') \<and>
      series_le (matching_requests_total r) (matching_requests_total r') \<and>
      series_le (ai_agent_calls_total r) (ai_agent_calls_total r') \<and>
      series_le (user_logins_total r) (user_logins_total r') \<and>
      series_le (user_registrations_total r) (user_registrations_total r') \<and>
      series_le (workflows_started_total r) (workflows_started_total r') \<and>
      series_le (workflows_completed_total r) (workflows_completed_total r') \<and>
      series_le (file_operations_total r) (file_operations_total r') \<and>
      series_le (db_operations_total r) (db_operations_total r'))"

section \<open>Well-formed registries\<close>

text \<open>
  The library builds every histogram with one bucket per upper bound. The registry keeps
  that shape: it holds when the module is loaded and every helper preserves it.
\<close>

definition histogram_ok :: "real list \<Rightarrow> histogram \<Rightarrow> bool" where
  "histogram_ok source_buckets h =
     (length (h_buckets h) = length (prepare_buckets source_buckets))"

definition family_ok :: "real list \<Rightarrow> histogram family \<Rightarrow> bool" where
  "family_ok source_buckets fam = (\<forall>(k, h) \<in> set fam. histogram_ok source_buckets h)"

definition registry_ok :: "registry \<Rightarrow> bool" where
  "registry_ok r =
     (family_ok resume_parse_duration_buckets (resume_parse_duration r) \<and>
      family_ok matching_duration_buckets (matching_duration r) \<and>
      family_ok ai_agent_latency_buckets (ai_agent_latency r) \<and>
      histogram_ok match_scores_buckets (match_scores r) \<and>
      family_ok workflow_duration_buckets (workflow_duration r) \<and>
      family_ok db_operation_duration_buckets (db_operation_duration r))"

section \<open>Sequences of recording calls\<close>

text \<open>One call of a helper by the rest of the backend, with the arguments the caller passes.\<close>

datatype call =
    TrackResumeUpload bool string
  | TrackMatchingRequest bool "string option"
  | TrackAIAgentCall string bool real
  | TrackMatchScore real
  | UpdateFitCategories int int int
  | TrackUserLogin bool
  | TrackWorkflow "bool option" "bool option" "string option" "string option"

fun perform :: "call \<Rightarrow> registry \<Rightarrow> registry outcome" where
  "perform (TrackResumeUpload success file_type) r = track_resume_upload success file_type r"
| "perform (TrackMatchingRequest success source) r = call_track_matching_request success source r"
| "perform (TrackAIAgentCall endpoint success duration) r =
     track_ai_agent_call endpoint success duration r"
| "perform (TrackMatchScore score) r = track_match_score score r"
| "perform (UpdateFitCategories best_fit partial_fit not_fit) r =
     update_fit_categories best_fit partial_fit not_fit r"
| "perform (TrackUserLogin success) r = track_user_login success r"
| "perform (TrackWorkflow started completed status workflow_type) r =
     call_track_workflow started completed status workflow_type r"

text \<open>Calls one after the other by one caller; an exception ends the sequence.\<close>

fun run :: "call list \<Rightarrow> registry \<Rightarrow> registry outcome" where
  "run [] r = Inr r"
| "run (c # cs) r = (case perform c r of Inl x \<Rightarrow> Inl x | Inr r1 \<Rightarrow> run cs r1)"

text \<open>
  Calls by independent callers over the life of the process: a call that raises leaves the
  registry as it is at the raise, and the next call runs on that registry.
\<close>

fun run_all :: "call list \<Rightarrow> registry \<Rightarrow> registry" where
  "run_all [] r = r"
| "run_all (c # cs) r = run_all cs (state_after (perform c r))"

text \<open>
  The only arguments on which a helper can raise from a well-formed registry are fit
  counts too large for \<^verbatim>\<open>float\<close>.
\<close>

definition converts :: "int \<Rightarrow> bool" where
  "converts n = (case py_float n of Inl e \<Rightarrow> False | Inr x \<Rightarrow> True)"

fun no_overflow :: "call \<Rightarrow> bool" where
  "no_overflow (UpdateFitCategories best_fit partial_fit not_fit) =
     (converts best_fit \<and> converts partial_fit \<and> converts not_fit)"
| "no_overflow c = True"

fun started_flag :: "call \<Rightarrow> bool" where
  "started_flag (TrackWorkflow started completed status workflow_type) = arg_or False started"
| "started_flag c = False"

fun completed_flag :: "call \<Rightarrow> bool" where
  "completed_flag (TrackWorkflow started completed status workflow_type) = arg_or False completed"
| "completed_flag c = False"

section \<open>The connection set-up of database.py\<close>

text \<open>
  \<^verbatim>\<open>sub in s\<close> on Python strings. The environment is a dictionary from names to values;
  \<^verbatim>\<open>os.getenv(name, default)\<close> reads it.
\<close>

fun starts_with :: "string \<Rightarrow> string \<Rightarrow> bool" where
  "starts_with [] s = True"
| "starts_with (x # xs) [] = False"
| "starts_with (x # xs) (c # cs) = (x = c \<and> starts_with xs cs)"

fun contains :: "string \<Rightarrow> string \<Rightarrow> bool" where
  "contains sub [] = (sub = [])"
| "contains sub (c # cs) = (starts_with sub (c # cs) \<or> contains sub cs)"

definition getenv :: "(string \<rightharpoonup> string) \<Rightarrow> string \<Rightarrow> string \<Rightarrow> string" where
  "getenv env name dflt = (case env name of None \<Rightarrow> dflt | Some v \<Rightarrow> v)"

definition MONGODB_URL :: "(string \<rightharpoonup> string) \<Rightarrow> string" where
  "MONGODB_URL env = getenv env ''MONGODB_URL'' ''mongodb://localhost:27017''"

definition DATABASE_NAME :: "(string \<rightharpoonup> string) \<Rightarrow> string" where
  "DATABASE_NAME env = getenv env ''DATABASE_NAME'' ''pod_1''"

datatype option_value = IntValue int | BoolValue bool

definition connection_options :: "string \<Rightarrow> (string \<times> option_value) list" where
  "connection_options url =
     (if contains ''mongodb+srv://'' url then
        [(''serverSelectionTimeoutMS'', IntValue 30000),
         (''connectTimeoutMS'', IntValue 20000),
         (''socketTimeoutMS'', IntValue 20000),
         (''retryWrites'', BoolValue True)]
      else if contains ''mongodb://'' url \<and> contains ''mongodb.net'' url then
        [(''tls'', BoolValue True),
         (''tlsAllowInvalidCertificates'', BoolValue False),
         (''serverSelectionTimeoutMS'', IntValue 30000),
         (''connectTimeoutMS'', IntValue 20000),
         (''socketTimeoutMS'', IntValue 20000),
         (''retryWrites'', BoolValue True)]
      else [])"

text \<open>
  The two clients the module builds at load: each is constructed from the URL and the
  keyword arguments \<^verbatim>\<open>**connection_options\<close>.
\<close>

record client_config =
  host :: string
  kwargs :: "(string \<times> option_value) list"

record database_module =
  client :: client_config
  async_client :: client_config

definition load_database_module :: "(string \<rightharpoonup> string) \<Rightarrow> database_module" where
  "load_database_module env =
     \<lparr>client = \<lparr>host = MONGODB_URL env, kwargs = connection_options (MONGODB_URL env)\<rparr>,
      async_client = \<lparr>host = MONGODB_URL env, kwargs = connection_options (MONGODB_URL env)\<rparr>\<rparr>"

section \<open>Basic facts\<close>

lemma update_append_absent:
  "k \<notin> fst ` set fam \<Longrightarrow> AList.update k v (fam @ [(k, w)]) = AList.update k v fam"
  by (induction fam) auto

lemma labels_then_Inr:
  assumes "labelnames \<noteq> []"
    and "those (map (map_of kw) labelnames) = Some k"
    and "sort (map fst kw) = sort labelnames"
    and "f (child_or new fam k) = Inr v'"
  shows "labels_then labelnames kw new f fam = Inr (AList.update k v' fam)"
proof (cases "k \<in> fst ` set fam")
  case True
  then obtain v where "map_of fam k = Some v"
    by (metis domD dom_map_of_conv_image_fst)
  with assms True show ?thesis
    by (simp add: labels_then_def labels_def on_child_def child_or_def)
next
  case False
  then have "map_of fam k = None"
    by (simp add: map_of_eq_None_iff)
  with assms False show ?thesis
    by (simp add: labels_then_def labels_def on_child_def child_or_def update_append_absent
        map_add_def)
qed

lemma labels_then_Inl:
  assumes "labelnames \<noteq> []"
    and "those (map (map_of kw) labelnames) = Some k"
    and "sort (map fst kw) = sort labelnames"
    and "f (child_or new fam k) = Inl (e, v1)"
  shows "labels_then labelnames kw new f fam = Inl (e, AList.update k v1 fam)"
proof (cases "k \<in> fst ` set fam")
  case True
  then obtain v where "map_of fam k = Some v"
    by (metis domD dom_map_of_conv_image_fst)
  with assms True show ?thesis
    by (simp add: labels_then_def labels_def on_child_def child_or_def)
next
  case False
  then have "map_of fam k = None"
    by (simp add: map_of_eq_None_iff)
  with assms False show ?thesis
    by (simp add: labels_then_def labels_def on_child_def child_or_def update_append_absent
        map_add_def)
qed

lemma labels_then_counter_inc:
  assumes "labelnames \<noteq> []"
    and "those (map (map_of kw) labelnames) = Some k"
    and "sort (map fst kw) = sort labelnames"
  shows "labels_then labelnames kw 0 (counter_inc 1) fam = Inr (bump k fam)"
  unfolding bump_def
  by (rule labels_then_Inr [OF assms]) (simp add: counter_inc_def)

lemma labels_then_gauge_set:
  assumes "labelnames \<noteq> []"
    and "those (map (map_of kw) labelnames) = Some k"
    and "sort (map fst kw) = sort labelnames"
    and "py_float n = Inr x"
  shows "labels_then labelnames kw 0 (gauge_set n) fam = Inr (AList.update k x fam)"
  by (rule labels_then_Inr [OF assms(1-3)]) (simp add: gauge_set_def assms(4))

lemma state_after_Inr [simp]: "state_after (Inr s) = s"
  by (simp add: state_after_def)

lemma state_after_Inl [simp]: "state_after (Inl (e, s)) = s"
  by (simp add: state_after_def)

subsection \<open>Conversion of integers to floats\<close>

lemma bit_length_le_iff: "bit_length n \<le> k \<longleftrightarrow> n < 2 ^ k"
proof (induction n arbitrary: k rule: bit_length.induct)
  case 1
  then show ?case by simp
next
  case (2 n)
  show ?case
  proof (cases k)
    case 0
    then show ?thesis by simp
  next
    case (Suc j)
    have "Suc n < 2 ^ Suc j \<longleftrightarrow> Suc n div 2 < 2 ^ j"
      by (simp add: less_mult_imp_div_less div_less_iff_less_mult mult.commute)
    with 2 [of j] Suc show ?thesis by simp
  qed
qed

lemma bit_length_eq: "2 ^ k \<le> n \<Longrightarrow> n < 2 ^ Suc k \<Longrightarrow> bit_length n = Suc k"
  using bit_length_le_iff [of n k] bit_length_le_iff [of n "Suc k"] by simp

lemma py_float_small: "\<bar>n\<bar> < 2 ^ 53 \<Longrightarrow> py_float n = Inr (of_int n)"
proof -
  assume "\<bar>n\<bar> < 2 ^ 53"
  then have "nat \<bar>n\<bar> < 2 ^ 53"
    by (simp add: nat_less_iff)
  then have "bit_length (nat \<bar>n\<bar>) \<le> 53"
    using bit_length_le_iff [of "nat \<bar>n\<bar>" 53] by blast
  then show ?thesis by (simp add: py_float_def Let_def)
qed

lemma float_limit_gt: "(9007199254740992::nat) < float_limit"
  by (simp add: float_limit_def)

lemma bit_length_2_53: "bit_length 9007199254740992 = 54"
  using bit_length_eq [of 53 9007199254740992] by simp

lemma py_float_2_53:
  "py_float 9007199254740992 = Inr 9007199254740992"
  "py_float (- 9007199254740992) = Inr (- 9007199254740992)"
  using float_limit_gt by (simp_all add: py_float_def bit_length_2_53 Let_def)

text \<open>Every integer of magnitude at most \<open>2 ^ 53\<close> is converted exactly.\<close>

lemma py_float_exact:
  assumes "\<bar>n\<bar> \<le> 2 ^ 53"
  shows "py_float n = Inr (of_int n)"
proof (cases "\<bar>n\<bar> < 2 ^ 53")
  case True
  then show ?thesis by (rule py_float_small)
next
  case False
  with assms have "n = 9007199254740992 \<or> n = - 9007199254740992"
    by (simp add: abs_if split: if_splits)
  then show ?thesis using py_float_2_53 by auto
qed

text \<open>Every integer of magnitude \<open>2 ^ 1024\<close> or more is refused.\<close>

lemma py_float_overflow:
  assumes "int float_limit \<le> \<bar>n\<bar>"
  shows "py_float n = Inl OverflowError"
proof -
  define a where "a = nat \<bar>n\<bar>"
  define e where "e = bit_length a"
  define sh where "sh = e - 53"
  define q where "q = a div 2 ^ sh"
  from assms have a: "float_limit \<le> a"
    by (simp add: a_def le_nat_iff)
  then have "\<not> a < 2 ^ 1024"
    unfolding float_limit_def by (simp only: not_less)
  then have "\<not> bit_length a \<le> 1024"
    using bit_length_le_iff [of a 1024] by blast
  then have e: "1024 < e" by (simp add: e_def)
  then have sh: "e - 1 = 52 + sh" "1024 \<le> 52 + sh" by (simp_all add: sh_def)
  have "\<not> bit_length a \<le> e - 1" using e by (simp add: e_def)
  then have "\<not> a < 2 ^ (e - 1)"
    using bit_length_le_iff [of a "e - 1"] by blast
  then have "2 ^ (52 + sh) \<le> a"
    unfolding sh(1) by (rule leI)
  then have qsh: "2 ^ 52 * 2 ^ sh \<le> a"
    by (simp only: power_add)
  have "2 ^ 52 \<le> q"
    unfolding q_def using qsh by (simp only: less_eq_div_iff_mult_less_eq zero_less_power pos2)
  then have "2 ^ 52 * 2 ^ sh \<le> q * 2 ^ sh"
    by (simp only: mult_le_mono1)
  then have "2 ^ (52 + sh) \<le> q * 2 ^ sh"
    by (simp only: power_add)
  moreover have "(2::nat) ^ 1024 \<le> 2 ^ (52 + sh)"
    using sh(2) by (intro power_increasing) simp_all
  ultimately have m: "float_limit \<le> q * 2 ^ sh"
    unfolding float_limit_def by (rule order_trans [rotated])
  have "q * 2 ^ sh \<le> (q + 1) * 2 ^ sh"
    by (simp only: mult_le_mono1 le_add1)
  with m have m': "float_limit \<le> (q + 1) * 2 ^ sh"
    by (rule order_trans)
  have "\<not> e \<le> 53" using e by simp
  then show ?thesis
    using m m' unfolding py_float_def Let_def a_def [symmetric] e_def [symmetric]
      sh_def [symmetric] q_def [symmetric]
    by simp
qed

text \<open>The first integer that is not a float, and one beyond the range of floats.\<close>

lemma py_float_rounds: "py_float 9007199254740993 = Inr 9007199254740992"
proof -
  have e: "bit_length (9007199254740993 :: nat) = 54"
    using bit_length_eq [of 53 9007199254740993] by simp
  show ?thesis
    using float_limit_gt by (simp add: py_float_def e Let_def)
qed

lemma py_float_too_large: "py_float (10 ^ 400) = Inl OverflowError"
  by (rule py_float_overflow) (simp add: float_limit_def)

lemma converts_exact: "\<bar>n\<bar> \<le> 2 ^ 53 \<Longrightarrow> converts n"
  by (simp add: converts_def py_float_exact)

lemma converts_Inr: "converts n \<Longrightarrow> \<exists>x. py_float n = Inr x"
  by (cases "py_float n") (simp_all add: converts_def)

lemma map_of_bump:
  "map_of (bump k fam) k' = (if k' = k then Some (child_or 0 fam k + 1) else map_of fam k')"
  by (simp add: bump_def update_conv')

subsection \<open>What each helper does to the registry\<close>

lemma track_resume_upload_eq:
  "track_resume_upload success file_type r =
     Inr (r\<lparr>resume_uploads_total :=
            bump [status_label success, file_type] (resume_uploads_total r)\<rparr>)"
  by (simp add: track_resume_upload_def status_label_def resume_uploads_total_labelnames_def
      labels_then_counter_inc)

lemma track_matching_request_eq:
  "track_matching_request success source r =
     Inr (r\<lparr>matching_requests_total :=
            bump [status_label success, source] (matching_requests_total r)\<rparr>)"
  by (simp add: track_matching_request_def status_label_def matching_requests_total_labelnames_def
      labels_then_counter_inc)

lemma track_user_login_eq:
  "track_user_login success r =
     Inr (r\<lparr>user_logins_total := bump [status_label success] (user_logins_total r)\<rparr>)"
  by (simp add: track_user_login_def status_label_def user_logins_total_labelnames_def
      labels_then_counter_inc)

lemma workflow_started_branch_eq:
  "workflow_started_branch workflow_type r =
     Inr (r\<lparr>workflows_started_total := bump [workflow_type] (workflows_started_total r),
            workflow_in_progress := workflow_in_progress r + 1\<rparr>)"
  by (simp add: workflow_started_branch_def workflows_started_total_labelnames_def
      labels_then_counter_inc gauge_inc_def)

lemma workflow_completed_branch_eq:
  "workflow_completed_branch status r =
     Inr (r\<lparr>workflows_completed_total := bump [status] (workflows_completed_total r),
            workflow_in_progress := workflow_in_progress r - 1\<rparr>)"
  by (simp add: workflow_completed_branch_def workflows_completed_total_labelnames_def
      labels_then_counter_inc gauge_dec_def)

lemma update_fit_categories_eq:
  assumes "py_float best_fit = Inr x" "py_float partial_fit = Inr y" "py_float not_fit = Inr z"
  shows "update_fit_categories best_fit partial_fit not_fit r =
     Inr (r\<lparr>candidates_by_fit :=
            AList.update [''Not Fit''] z
              (AList.update [''Partial Fit''] y
                (AList.update [''Best Fit''] x (candidates_by_fit r)))\<rparr>)"
  using assms
  by (simp add: update_fit_categories_def candidates_by_fit_labelnames_def labels_then_gauge_set)

text \<open>
  When the first conversion raises, \<^verbatim>\<open>labels\<close> has made sure the \<open>Best Fit\<close> child exists
  and nothing has been set.
\<close>

lemma update_fit_categories_raises_first:
  assumes "py_float best_fit = Inl e"
  shows "update_fit_categories best_fit partial_fit not_fit r =
     Inl (e, r\<lparr>candidates_by_fit :=
               AList.update [''Best Fit''] (child_or 0 (candidates_by_fit r) [''Best Fit''])
                 (candidates_by_fit r)\<rparr>)"
proof -
  have "labels_then candidates_by_fit_labelnames [(''category'', ''Best Fit'')] 0
          (gauge_set best_fit) (candidates_by_fit r) =
        Inl (e, AList.update [''Best Fit''] (child_or 0 (candidates_by_fit r) [''Best Fit''])
                  (candidates_by_fit r))"
    by (rule labels_then_Inl) (simp_all add: candidates_by_fit_labelnames_def gauge_set_def assms)
  then show ?thesis
    by (simp add: update_fit_categories_def)
qed

text \<open>Returned or raised, \<^verbatim>\<open>update_fit_categories\<close> touches the fit gauge only.\<close>

lemma update_fit_categories_frame:
  "state_after (update_fit_categories best_fit partial_fit not_fit r) =
     r\<lparr>candidates_by_fit :=
         candidates_by_fit (state_after (update_fit_categories best_fit partial_fit not_fit r))\<rparr>"
  by (simp add: update_fit_categories_def split: sum.splits prod.splits)

subsection \<open>Histograms\<close>

lemma find_bucket_prepare:
  "find_bucket amount (map Finite bs @ [PlusInf]) i =
     Some (i + length (takeWhile (\<lambda>b. \<not> amount \<le> b) bs))"
  by (induction bs arbitrary: i) auto

lemma bucket_index_le: "bucket_index amount bs \<le> length bs"
  by (simp add: bucket_index_def length_takeWhile_le)

lemma histogram_observe_ok:
  assumes "histogram_ok bs h"
  shows "histogram_observe (prepare_buckets bs) amount h = Inr (observed bs amount h)"
proof -
  have "bucket_index amount bs < length (h_buckets h)"
    using assms bucket_index_le [of amount bs] by (simp add: histogram_ok_def prepare_buckets_def)
  then show ?thesis
    by (simp add: histogram_observe_def prepare_buckets_def find_bucket_prepare
        bucket_index_def observed_def Let_def)
qed

lemma sum_list_bump: "i < length xs \<Longrightarrow> sum_list (xs[i := xs ! i + 1]) = sum_list xs + (1::real)"
proof (induction xs arbitrary: i)
  case Nil
  then show ?case by simp
next
  case (Cons x xs)
  then show ?case by (cases i) auto
qed

lemma observed_count:
  "histogram_ok bs h \<Longrightarrow> h_count (observed bs amount h) = h_count h + 1"
  using bucket_index_le [of amount bs]
  by (simp add: h_count_def observed_def histogram_ok_def prepare_buckets_def sum_list_bump)

lemma observed_ok: "histogram_ok bs h \<Longrightarrow> histogram_ok bs (observed bs amount h)"
  by (simp add: histogram_ok_def observed_def)

lemma new_histogram_ok: "histogram_ok bs (new_histogram (prepare_buckets bs))"
  by (simp add: histogram_ok_def new_histogram_def)

lemma child_or_ok:
  "family_ok bs fam \<Longrightarrow> histogram_ok bs (child_or (new_histogram (prepare_buckets bs)) fam k)"
  by (auto simp: family_ok_def child_or_def new_histogram_ok split: option.splits
      dest!: map_of_SomeD)

lemma family_ok_update:
  "family_ok bs fam \<Longrightarrow> histogram_ok bs h \<Longrightarrow> family_ok bs (AList.update k h fam)"
  by (induction fam) (auto simp: family_ok_def)

lemma labels_then_observe:
  assumes "labelnames \<noteq> []"
    and "those (map (map_of kw) labelnames) = Some k"
    and "sort (map fst kw) = sort labelnames"
    and "family_ok bs fam"
  shows "labels_then labelnames kw (new_histogram (prepare_buckets bs))
           (histogram_observe (prepare_buckets bs) amount) fam =
         Inr (AList.update k
                (observed bs amount (child_or (new_histogram (prepare_buckets bs)) fam k)) fam)"
  by (rule labels_then_Inr [OF assms(1-3)]) (simp add: histogram_observe_ok child_or_ok assms(4))

lemma track_ai_agent_call_eq:
  assumes "family_ok ai_agent_latency_buckets (ai_agent_latency r)"
  shows "track_ai_agent_call endpoint success duration r =
     Inr (r\<lparr>ai_agent_calls_total :=
              bump [endpoint, status_label success] (ai_agent_calls_total r),
            ai_agent_latency :=
              AList.update [endpoint]
                (observed ai_agent_latency_buckets duration
                   (child_or (new_histogram (prepare_buckets ai_agent_latency_buckets))
                      (ai_agent_latency r) [endpoint]))
                (ai_agent_latency r)\<rparr>)"
  using assms
  by (simp add: track_ai_agent_call_def status_label_def ai_agent_calls_total_labelnames_def
      ai_agent_latency_labelnames_def labels_then_counter_inc labels_then_observe Let_def)

lemma track_match_score_eq:
  assumes "histogram_ok match_scores_buckets (match_scores r)"
  shows "track_match_score score r =
     Inr (r\<lparr>match_scores := observed match_scores_buckets score (match_scores r)\<rparr>)"
  using assms by (simp add: track_match_score_def histogram_observe_ok)

lemma track_workflow_eq:
  "track_workflow started completed status workflow_type r =
     Inr (r\<lparr>workflows_started_total :=
              (if started then bump [workflow_type] else id) (workflows_started_total r),
            workflows_completed_total :=
              (if completed then bump [status] else id) (workflows_completed_total r),
            workflow_in_progress :=
              workflow_in_progress r + (if started then 1 else 0) - (if completed then 1 else 0)\<rparr>)"
  by (simp add: track_workflow_def workflow_started_branch_eq workflow_completed_branch_eq)

section \<open>The workflow helper\<close>

text \<open>
  C1. A call \<^verbatim>\<open>track_workflow(started, completed, status, workflow_type)\<close> always returns.
  When \<open>started\<close> holds, the series of \<open>workflows_started_total\<close> labelled with the given
  type grows by exactly 1 and \<open>workflow_in_progress\<close> grows by 1; when \<open>completed\<close> holds, the
  series of \<open>workflows_completed_total\<close> labelled with the given status grows by exactly 1
  and \<open>workflow_in_progress\<close> shrinks by 1. Every other series of the two counters and
  every other instrument of the registry keeps its value.
\<close>

theorem track_workflow_effect:
  "\<exists>r'. track_workflow started completed status workflow_type r = Inr r' \<and>
     (\<forall>k. map_of (workflows_started_total r') k =
        (if started \<and> k = [workflow_type]
         then Some (child_or 0 (workflows_started_total r) k + 1)
         else map_of (workflows_started_total r) k)) \<and>
     (\<forall>k. map_of (workflows_completed_total r') k =
        (if completed \<and> k = [status]
         then Some (child_or 0 (workflows_completed_total r) k + 1)
         else map_of (workflows_completed_total r) k)) \<and>
     workflow_in_progress r' =
        workflow_in_progress r + (if started then 1 else 0) - (if completed then 1 else 0) \<and>
     r' = r\<lparr>workflows_started_total := workflows_started_total r',
            workflows_completed_total := workflows_completed_total r',
            workflow_in_progress := workflow_in_progress r'\<rparr>"
  by (simp add: track_workflow_eq map_of_bump)

text \<open>
  C9. \<^verbatim>\<open>track_workflow()\<close> with no argument is accepted: \<open>started\<close> and \<open>completed\<close> default
  to \<open>False\<close>, and with both flags false the call returns and leaves the whole registry as
  it was, whatever the status and the workflow type.
\<close>

theorem track_workflow_no_arguments:
  "call_track_workflow None None None None r = Inr r \<and>
   track_workflow False False status workflow_type r = Inr r"
  by (simp add: call_track_workflow_def arg_or_def track_workflow_def)

section \<open>Well-formedness is kept\<close>

lemma fresh_registry_in_progress: "workflow_in_progress fresh_registry = 0"
  by (simp add: fresh_registry_def)

lemma registry_ok_fresh: "registry_ok fresh_registry"
  by (simp add: registry_ok_def fresh_registry_def family_ok_def new_histogram_ok)

lemma call_track_workflow_eq:
  "call_track_workflow started completed status workflow_type r =
     Inr (r\<lparr>workflows_started_total :=
              (if arg_or False started then bump [arg_or ''manual'' workflow_type] else id)
                (workflows_started_total r),
            workflows_completed_total :=
              (if arg_or False completed then bump [arg_or ''success'' status] else id)
                (workflows_completed_total r),
            workflow_in_progress :=
              workflow_in_progress r + (if arg_or False started then 1 else 0)
                - (if arg_or False completed then 1 else 0)\<rparr>)"
  by (simp add: call_track_workflow_def track_workflow_eq)

lemma perform_ok:
  assumes "registry_ok r" and "no_overflow c"
  shows "\<exists>r'. perform c r = Inr r' \<and> registry_ok r'"
proof (cases c)
  case (TrackAIAgentCall endpoint success duration)
  have fam: "family_ok ai_agent_latency_buckets (ai_agent_latency r)"
    using assms by (simp add: registry_ok_def)
  show ?thesis
    using assms
    by (simp add: TrackAIAgentCall track_ai_agent_call_eq [OF fam] registry_ok_def
        family_ok_update observed_ok child_or_ok)
next
  case (TrackMatchScore score)
  have h: "histogram_ok match_scores_buckets (match_scores r)"
    using assms by (simp add: registry_ok_def)
  show ?thesis
    using assms
    by (simp add: TrackMatchScore track_match_score_eq [OF h] registry_ok_def observed_ok)
next
  case (UpdateFitCategories best_fit partial_fit not_fit)
  with assms(2) have "converts best_fit" "converts partial_fit" "converts not_fit"
    by simp_all
  then obtain x y z where
    "py_float best_fit = Inr x" "py_float partial_fit = Inr y" "py_float not_fit = Inr z"
    by (meson converts_Inr)
  then show ?thesis
    using assms(1) by (simp add: UpdateFitCategories update_fit_categories_eq registry_ok_def)
qed (use assms in \<open>simp_all add: registry_ok_def track_resume_upload_eq
      call_track_matching_request_def track_matching_request_eq
      track_user_login_eq call_track_workflow_eq\<close>)

text \<open>A call that raises leaves a well-formed registry too.\<close>

lemma perform_state_ok:
  assumes "registry_ok r"
  shows "registry_ok (state_after (perform c r))"
proof (cases c)
  case (UpdateFitCategories best_fit partial_fit not_fit)
  show ?thesis
    using assms
    by (subst UpdateFitCategories, simp, subst update_fit_categories_frame)
      (simp add: registry_ok_def)
next
  case (TrackResumeUpload success file_type)
  with perform_ok [OF assms, of c] show ?thesis by auto
next
  case (TrackMatchingRequest success source)
  with perform_ok [OF assms, of c] show ?thesis by auto
next
  case (TrackAIAgentCall endpoint success duration)
  with perform_ok [OF assms, of c] show ?thesis by auto
next
  case (TrackMatchScore score)
  with perform_ok [OF assms, of c] show ?thesis by auto
next
  case (TrackUserLogin success)
  with perform_ok [OF assms, of c] show ?thesis by auto
next
  case (TrackWorkflow started completed status workflow_type)
  with perform_ok [OF assms, of c] show ?thesis by auto
qed

lemma run_ok:
  "registry_ok r \<Longrightarrow> list_all no_overflow cs \<Longrightarrow> \<exists>r'. run cs r = Inr r' \<and> registry_ok r'"
proof (induction cs arbitrary: r)
  case Nil
  then show ?case by simp
next
  case (Cons c cs)
  from Cons.prems have "no_overflow c" "list_all no_overflow cs" by simp_all
  from perform_ok [OF Cons.prems(1) this(1)] obtain r1 where
    r1: "perform c r = Inr r1" "registry_ok r1" by blast
  from Cons.IH [OF r1(2) \<open>list_all no_overflow cs\<close>] r1(1) show ?case by simp
qed

section \<open>Workflows in progress\<close>

text \<open>
  Only \<^verbatim>\<open>track_workflow\<close> moves the gauge, and it never raises: whatever a call does, and
  whether it returns or raises, the gauge moves by its two flags.
\<close>

lemma perform_in_progress_after:
  "workflow_in_progress (state_after (perform c r)) =
     workflow_in_progress r + (if started_flag c then 1 else 0) - (if completed_flag c then 1 else 0)"
proof (cases c)
  case (TrackAIAgentCall endpoint success duration)
  then show ?thesis
    by (simp add: track_ai_agent_call_def Let_def split: sum.splits prod.splits)
next
  case (TrackMatchScore score)
  then show ?thesis
    by (simp add: track_match_score_def split: sum.splits prod.splits)
next
  case (UpdateFitCategories best_fit partial_fit not_fit)
  then show ?thesis
    by (simp, subst update_fit_categories_frame) simp
qed (simp_all add: track_resume_upload_eq
      call_track_matching_request_def track_matching_request_eq
      track_user_login_eq call_track_workflow_eq)

lemma perform_in_progress:
  "perform c r = Inr r' \<Longrightarrow>
   workflow_in_progress r' =
     workflow_in_progress r + (if started_flag c then 1 else 0) - (if completed_flag c then 1 else 0)"
  using perform_in_progress_after [of c r] by simp

lemma run_in_progress:
  "run cs r = Inr r' \<Longrightarrow>
   workflow_in_progress r' =
     workflow_in_progress r + real (length (filter started_flag cs))
       - real (length (filter completed_flag cs))"
proof (induction cs arbitrary: r)
  case Nil
  then show ?case by simp
next
  case (Cons c cs)
  from Cons.prems obtain r1 where r1: "perform c r = Inr r1" "run cs r1 = Inr r'"
    by (auto split: sum.splits)
  from Cons.IH [OF r1(2)] perform_in_progress [OF r1(1)] show ?case by simp
qed

lemma run_all_in_progress:
  "workflow_in_progress (run_all cs r) =
     workflow_in_progress r + real (length (filter started_flag cs))
       - real (length (filter completed_flag cs))"
proof (induction cs arbitrary: r)
  case Nil
  then show ?case by simp
next
  case (Cons c cs)
  from Cons.IH [of "state_after (perform c r)"] perform_in_progress_after [of c r]
  show ?case by simp
qed

text \<open>
  C2. From any value of \<open>workflow_in_progress\<close>, a call with \<open>started=True\<close> and type
  \<open>manual\<close> followed by a call with \<open>completed=True\<close> and status \<open>success\<close> leaves the
  gauge where it was. More generally, any sequence of helper calls on a well-formed
  registry in which as many calls carry \<open>started=True\<close> as \<open>completed=True\<close>, and in which
  no fit count is too large for a float, runs to its end and leaves the gauge at its value
  before the sequence. And from any registry, any balanced sequence of calls of which
  each one runs whether or not an earlier one raised leaves the gauge at its value before.
\<close>

theorem in_progress_returns_to_baseline:
  "(\<exists>r1 r2. call_track_workflow (Some True) None None (Some ''manual'') r = Inr r1 \<and>
            call_track_workflow None (Some True) (Some ''success'') None r1 = Inr r2 \<and>
            workflow_in_progress r1 = workflow_in_progress r + 1 \<and>
            workflow_in_progress r2 = workflow_in_progress r) \<and>
   (registry_ok r \<and> length (filter started_flag cs) = length (filter completed_flag cs) \<and>
    list_all no_overflow cs \<longrightarrow>
      (\<exists>r'. run cs r = Inr r' \<and> workflow_in_progress r' = workflow_in_progress r)) \<and>
   (length (filter started_flag cs) = length (filter completed_flag cs) \<longrightarrow>
      workflow_in_progress (run_all cs r) = workflow_in_progress r)"
proof (intro conjI impI)
  show "\<exists>r1 r2. call_track_workflow (Some True) None None (Some ''manual'') r = Inr r1 \<and>
            call_track_workflow None (Some True) (Some ''success'') None r1 = Inr r2 \<and>
            workflow_in_progress r1 = workflow_in_progress r + 1 \<and>
            workflow_in_progress r2 = workflow_in_progress r"
    by (simp add: call_track_workflow_eq arg_or_def)
next
  assume a: "registry_ok r \<and> length (filter started_flag cs) = length (filter completed_flag cs) \<and>
    list_all no_overflow cs"
  then obtain r' where r': "run cs r = Inr r'"
    using run_ok by blast
  from run_in_progress [OF r'] a have "workflow_in_progress r' = workflow_in_progress r"
    by simp
  with r' show "\<exists>r'. run cs r = Inr r' \<and> workflow_in_progress r' = workflow_in_progress r"
    by blast
next
  assume "length (filter started_flag cs) = length (filter completed_flag cs)"
  then show "workflow_in_progress (run_all cs r) = workflow_in_progress r"
    by (simp add: run_all_in_progress)
qed

theorem in_progress_returns_to_baseline_witness:
  "registry_ok fresh_registry \<and>
   length (filter started_flag
     [TrackWorkflow (Some True) None None (Some ''manual''),
      TrackResumeUpload True ''pdf'',
      UpdateFitCategories 3 1 2,
      TrackWorkflow None (Some True) (Some ''success'') None]) =
   length (filter completed_flag
     [TrackWorkflow (Some True) None None (Some ''manual''),
      TrackResumeUpload True ''pdf'',
      UpdateFitCategories 3 1 2,
      TrackWorkflow None (Some True) (Some ''success'') None]) \<and>
   list_all no_overflow
     [TrackWorkflow (Some True) None None (Some ''manual''),
      TrackResumeUpload True ''pdf'',
      UpdateFitCategories 3 1 2,
      TrackWorkflow None (Some True) (Some ''success'') None] \<and>
   (\<exists>r'. run [TrackWorkflow (Some True) None None (Some ''manual''),
              TrackResumeUpload True ''pdf'',
              UpdateFitCategories 3 1 2,
              TrackWorkflow None (Some True) (Some ''success'') None] fresh_registry = Inr r' \<and>
         workflow_in_progress r' = 0) \<and>
   workflow_in_progress
     (run_all [TrackWorkflow (Some True) None None (Some ''manual''),
               TrackResumeUpload True ''pdf'',
               UpdateFitCategories 3 1 2,
               TrackWorkflow None (Some True) (Some ''success'') None] fresh_registry) = 0"
  using in_progress_returns_to_baseline [of fresh_registry
     "[TrackWorkflow (Some True) None None (Some ''manual''),
      TrackResumeUpload True ''pdf'',
      UpdateFitCategories 3 1 2,
      TrackWorkflow None (Some True) (Some ''success'') None]"] registry_ok_fresh
  by (simp add: arg_or_def fresh_registry_in_progress converts_exact)

section \<open>AI agent calls\<close>

text \<open>
  C3. On a well-formed registry a call \<^verbatim>\<open>track_ai_agent_call(endpoint, success, duration)\<close>
  returns and has made both updates: the series \<open>(endpoint, status)\<close> of
  \<open>ai_agent_calls_total\<close>, with status \<open>success\<close> or \<open>failed\<close> after the flag, is larger by
  exactly 1, and the histogram \<open>(endpoint)\<close> of \<open>ai_agent_latency\<close> holds one more
  observation: its sum is larger by the duration, its count by 1, and the bucket of the
  first boundary not below the duration took the observation. No other series and no
  other instrument changes. In particular, on the registry just loaded, the call for
  \<open>compare-batch\<close>, success and 2.5 seconds leaves the counter series at 1 and one
  observation in the bucket between the boundaries 1 and 5.
\<close>

theorem track_ai_agent_call_effect:
  "(registry_ok r \<longrightarrow>
     (\<exists>r' h'. track_ai_agent_call endpoint success duration r = Inr r' \<and>
        (\<forall>k. map_of (ai_agent_calls_total r') k =
           (if k = [endpoint, status_label success]
            then Some (child_or 0 (ai_agent_calls_total r) k + 1)
            else map_of (ai_agent_calls_total r) k)) \<and>
        (\<forall>k. map_of (ai_agent_latency r') k =
           (if k = [endpoint] then Some h' else map_of (ai_agent_latency r) k)) \<and>
        h_sum h' =
          h_sum (child_or (new_histogram (prepare_buckets ai_agent_latency_buckets))
                   (ai_agent_latency r) [endpoint]) + duration \<and>
        h_count h' =
          h_count (child_or (new_histogram (prepare_buckets ai_agent_latency_buckets))
                     (ai_agent_latency r) [endpoint]) + 1 \<and>
        h' = observed ai_agent_latency_buckets duration
               (child_or (new_histogram (prepare_buckets ai_agent_latency_buckets))
                  (ai_agent_latency r) [endpoint]) \<and>
        r' = r\<lparr>ai_agent_calls_total := ai_agent_calls_total r',
               ai_agent_latency := ai_agent_latency r'\<rparr>)) \<and>
   (\<exists>r'. track_ai_agent_call ''compare-batch'' True 2.5 fresh_registry = Inr r' \<and>
      map_of (ai_agent_calls_total r') [''compare-batch'', ''success''] = Some 1 \<and>
      map_of (ai_agent_latency r') [''compare-batch''] =
        Some \<lparr>h_sum = 2.5, h_buckets = [0, 1, 0, 0, 0, 0, 0, 0]\<rparr> \<and>
      prepare_buckets ai_agent_latency_buckets ! 0 = Finite 1 \<and>
      prepare_buckets ai_agent_latency_buckets ! 1 = Finite 5)"
proof (intro conjI impI)
  assume ok: "registry_ok r"
  then have fam: "family_ok ai_agent_latency_buckets (ai_agent_latency r)"
    by (simp add: registry_ok_def)
  let ?h = "child_or (new_histogram (prepare_buckets ai_agent_latency_buckets))
              (ai_agent_latency r) [endpoint]"
  have hok: "histogram_ok ai_agent_latency_buckets ?h"
    using fam by (rule child_or_ok)
  have cnt: "h_count (observed ai_agent_latency_buckets duration ?h) = h_count ?h + 1"
    using hok by (rule observed_count)
  have sm: "h_sum (observed ai_agent_latency_buckets duration ?h) = h_sum ?h + duration"
    by (simp add: observed_def)
  show "\<exists>r' h'. track_ai_agent_call endpoint success duration r = Inr r' \<and>
        (\<forall>k. map_of (ai_agent_calls_total r') k =
           (if k = [endpoint, status_label success]
            then Some (child_or 0 (ai_agent_calls_total r) k + 1)
            else map_of (ai_agent_calls_total r) k)) \<and>
        (\<forall>k. map_of (ai_agent_latency r') k =
           (if k = [endpoint] then Some h' else map_of (ai_agent_latency r) k)) \<and>
        h_sum h' = h_sum ?h + duration \<and>
        h_count h' = h_count ?h + 1 \<and>
        h' = observed ai_agent_latency_buckets duration ?h \<and>
        r' = r\<lparr>ai_agent_calls_total := ai_agent_calls_total r',
               ai_agent_latency := ai_agent_latency r'\<rparr>"
    using cnt sm
    by (simp add: track_ai_agent_call_eq [OF fam] map_of_bump update_conv')
next
  have fam: "family_ok ai_agent_latency_buckets (ai_agent_latency fresh_registry)"
    by (simp add: fresh_registry_def family_ok_def)
  show "\<exists>r'. track_ai_agent_call ''compare-batch'' True 2.5 fresh_registry = Inr r' \<and>
      map_of (ai_agent_calls_total r') [''compare-batch'', ''success''] = Some 1 \<and>
      map_of (ai_agent_latency r') [''compare-batch''] =
        Some \<lparr>h_sum = 2.5, h_buckets = [0, 1, 0, 0, 0, 0, 0, 0]\<rparr> \<and>
      prepare_buckets ai_agent_latency_buckets ! 0 = Finite 1 \<and>
      prepare_buckets ai_agent_latency_buckets ! 1 = Finite 5"
    unfolding track_ai_agent_call_eq [OF fam]
    by (simp add: map_of_bump update_conv' status_label_def fresh_registry_def child_or_def)
      (simp add: observed_def new_histogram_def prepare_buckets_def ai_agent_latency_buckets_def
        bucket_index_def)
qed

theorem track_ai_agent_call_effect_witness:
  "registry_ok fresh_registry \<and>
   (\<exists>r' h'. track_ai_agent_call ''extract-jd'' False 45 fresh_registry = Inr r' \<and>
      map_of (ai_agent_calls_total r') [''extract-jd'', ''failed''] = Some 1 \<and>
      map_of (ai_agent_latency r') [''extract-jd''] = Some h' \<and>
      h_sum h' = 45 \<and> h_count h' = 1)"
proof -
  have "registry_ok fresh_registry" by (rule registry_ok_fresh)
  moreover from this track_ai_agent_call_effect [of fresh_registry "''extract-jd''" False 45]
  obtain r' h' where
    "track_ai_agent_call ''extract-jd'' False 45 fresh_registry = Inr r'"
    "\<forall>k. map_of (ai_agent_calls_total r') k =
           (if k = [''extract-jd'', status_label False]
            then Some (child_or 0 (ai_agent_calls_total fresh_registry) k + 1)
            else map_of (ai_agent_calls_total fresh_registry) k)"
    "\<forall>k. map_of (ai_agent_latency r') k =
           (if k = [''extract-jd''] then Some h' else map_of (ai_agent_latency fresh_registry) k)"
    "h_sum h' =
          h_sum (child_or (new_histogram (prepare_buckets ai_agent_latency_buckets))
                   (ai_agent_latency fresh_registry) [''extract-jd'']) + 45"
    "h_count h' =
          h_count (child_or (new_histogram (prepare_buckets ai_agent_latency_buckets))
                     (ai_agent_latency fresh_registry) [''extract-jd'']) + 1"
    by blast
  then have "track_ai_agent_call ''extract-jd'' False 45 fresh_registry = Inr r' \<and>
      map_of (ai_agent_calls_total r') [''extract-jd'', ''failed''] = Some 1 \<and>
      map_of (ai_agent_latency r') [''extract-jd''] = Some h' \<and>
      h_sum h' = 45 \<and> h_count h' = 1"
    by (simp add: status_label_def child_or_def fresh_registry_def new_histogram_def h_count_def
        prepare_buckets_def ai_agent_latency_buckets_def)
  ultimately show ?thesis by blast
qed

section \<open>Match scores\<close>

lemma bucket_index_overflow:
  "100 < score \<Longrightarrow> bucket_index score match_scores_buckets = 10"
  by (simp add: bucket_index_def match_scores_buckets_def)

text \<open>
  C7. On a well-formed registry \<^verbatim>\<open>track_match_score(score)\<close> returns for every real score:
  the sum of \<open>match_scores\<close> grows by the score and its count by 1, and nothing else
  changes. No range is checked: a score above 100, the highest declared boundary, lands in
  the last bucket, the one of the bound \<open>+Inf\<close> the library appends.
\<close>

theorem track_match_score_total:
  "(registry_ok r \<longrightarrow>
     (\<exists>r'. track_match_score score r = Inr r' \<and>
        h_sum (match_scores r') = h_sum (match_scores r) + score \<and>
        h_count (match_scores r') = h_count (match_scores r) + 1 \<and>
        (100 < score \<longrightarrow>
           h_buckets (match_scores r') =
             (h_buckets (match_scores r))[10 := h_buckets (match_scores r) ! 10 + 1]) \<and>
        r' = r\<lparr>match_scores := match_scores r'\<rparr>)) \<and>
   prepare_buckets match_scores_buckets ! 9 = Finite 100 \<and>
   prepare_buckets match_scores_buckets ! 10 = PlusInf \<and>
   length (prepare_buckets match_scores_buckets) = 11"
proof (intro conjI impI)
  assume ok: "registry_ok r"
  then have h: "histogram_ok match_scores_buckets (match_scores r)"
    by (simp add: registry_ok_def)
  have cnt: "h_count (observed match_scores_buckets score (match_scores r)) =
      h_count (match_scores r) + 1"
    using h by (rule observed_count)
  have ovf: "100 < score \<longrightarrow>
      h_buckets (observed match_scores_buckets score (match_scores r)) =
        (h_buckets (match_scores r))[10 := h_buckets (match_scores r) ! 10 + 1]"
    by (simp add: observed_def bucket_index_overflow)
  show "\<exists>r'. track_match_score score r = Inr r' \<and>
        h_sum (match_scores r') = h_sum (match_scores r) + score \<and>
        h_count (match_scores r') = h_count (match_scores r) + 1 \<and>
        (100 < score \<longrightarrow>
           h_buckets (match_scores r') =
             (h_buckets (match_scores r))[10 := h_buckets (match_scores r) ! 10 + 1]) \<and>
        r' = r\<lparr>match_scores := match_scores r'\<rparr>"
    using cnt ovf by (simp add: track_match_score_eq [OF h]) (simp add: observed_def)
qed (simp_all add: prepare_buckets_def match_scores_buckets_def)

theorem track_match_score_total_witness:
  "registry_ok fresh_registry \<and> (100::real) < 150 \<and>
   (\<exists>r'. track_match_score 150 fresh_registry = Inr r' \<and>
      h_sum (match_scores r') = 150 \<and>
      h_buckets (match_scores r') = [0, 0, 0, 0, 0, 0, 0, 0, 0, 0, 1])"
proof -
  have ok: "registry_ok fresh_registry" by (rule registry_ok_fresh)
  from track_match_score_total [of fresh_registry 150] ok
  obtain r' where
    "track_match_score 150 fresh_registry = Inr r'"
    "h_sum (match_scores r') = h_sum (match_scores fresh_registry) + 150"
    "h_buckets (match_scores r') =
       (h_buckets (match_scores fresh_registry))[10 := h_buckets (match_scores fresh_registry) ! 10 + 1]"
    by auto
  then have "track_match_score 150 fresh_registry = Inr r' \<and>
      h_sum (match_scores r') = 150 \<and>
      h_buckets (match_scores r') = [0, 0, 0, 0, 0, 0, 0, 0, 0, 0, 1]"
    by (simp add: fresh_registry_def new_histogram_def prepare_buckets_def match_scores_buckets_def)
  with ok show ?thesis by auto
qed

section \<open>Fit categories\<close>

text \<open>
  The statement that every triple of integers is stored exactly fails on the code:
  \<^verbatim>\<open>Gauge.set\<close> stores \<^verbatim>\<open>float(value)\<close>. On the registry just loaded, the call with
  \<open>(2 ^ 53 + 1, 1, 2)\<close> returns with \<open>Best Fit\<close> at \<open>2 ^ 53\<close>, and the call with
  \<open>(10 ^ 400, 1, 2)\<close> raises \<^verbatim>\<open>OverflowError\<close> after \<^verbatim>\<open>labels\<close> has created the \<open>Best Fit\<close>
  child, with no series set.
\<close>

theorem update_fit_categories_exact_counterexample:
  "update_fit_categories 9007199254740993 1 2 fresh_registry =
     Inr (fresh_registry\<lparr>candidates_by_fit :=
            [([''Best Fit''], 9007199254740992), ([''Partial Fit''], 1), ([''Not Fit''], 2)]\<rparr>) \<and>
   map_of (candidates_by_fit
             (state_after (update_fit_categories 9007199254740993 1 2 fresh_registry)))
       [''Best Fit''] \<noteq> Some (of_int 9007199254740993) \<and>
   update_fit_categories (10 ^ 400) 1 2 fresh_registry =
     Inl (OverflowError, fresh_registry\<lparr>candidates_by_fit := [([''Best Fit''], 0)]\<rparr>)"
proof -
  have one: "py_float 1 = Inr 1" and two: "py_float 2 = Inr 2"
    by (simp_all add: py_float_exact)
  have a: "update_fit_categories 9007199254740993 1 2 fresh_registry =
     Inr (fresh_registry\<lparr>candidates_by_fit :=
            [([''Best Fit''], 9007199254740992), ([''Partial Fit''], 1), ([''Not Fit''], 2)]\<rparr>)"
    by (simp add: update_fit_categories_eq [OF py_float_rounds one two] fresh_registry_def)
  have b: "update_fit_categories (10 ^ 400) 1 2 fresh_registry =
     Inl (OverflowError, fresh_registry\<lparr>candidates_by_fit := [([''Best Fit''], 0)]\<rparr>)"
    by (subst update_fit_categories_raises_first [OF py_float_too_large])
      (simp add: fresh_registry_def child_or_def)
  show ?thesis
    unfolding b unfolding a by simp
qed

text \<open>
  C5 (amended). Whatever \<open>candidates_by_fit\<close> held before, and for all integers
  \<open>best_fit\<close>, \<open>partial_fit\<close>, \<open>not_fit\<close> of magnitude at most \<open>2 ^ 53\<close>,
  \<^verbatim>\<open>update_fit_categories(best_fit, partial_fit, not_fit)\<close> returns and leaves the series
  \<open>Best Fit\<close>, \<open>Partial Fit\<close> and \<open>Not Fit\<close> at exactly the three numbers given; other series
  of the gauge and all other instruments are unchanged. In particular the calls with
  \<open>(3, 1, 2)\<close> and then \<open>(0, 0, 0)\<close> show 3, 1, 2 and then 0, 0, 0.
\<close>

theorem update_fit_categories_overwrites:
  "(\<bar>best_fit\<bar> \<le> 2 ^ 53 \<and> \<bar>partial_fit\<bar> \<le> 2 ^ 53 \<and> \<bar>not_fit\<bar> \<le> 2 ^ 53 \<longrightarrow>
     (\<exists>r'. update_fit_categories best_fit partial_fit not_fit r = Inr r' \<and>
        (\<forall>k. map_of (candidates_by_fit r') k =
           (if k = [''Best Fit''] then Some (of_int best_fit)
            else if k = [''Partial Fit''] then Some (of_int partial_fit)
            else if k = [''Not Fit''] then Some (of_int not_fit)
            else map_of (candidates_by_fit r) k)) \<and>
        r' = r\<lparr>candidates_by_fit := candidates_by_fit r'\<rparr>)) \<and>
   (\<exists>r1 r2. update_fit_categories 3 1 2 r = Inr r1 \<and>
      map_of (candidates_by_fit r1) [''Best Fit''] = Some 3 \<and>
      map_of (candidates_by_fit r1) [''Partial Fit''] = Some 1 \<and>
      map_of (candidates_by_fit r1) [''Not Fit''] = Some 2 \<and>
      update_fit_categories 0 0 0 r1 = Inr r2 \<and>
      map_of (candidates_by_fit r2) [''Best Fit''] = Some 0 \<and>
      map_of (candidates_by_fit r2) [''Partial Fit''] = Some 0 \<and>
      map_of (candidates_by_fit r2) [''Not Fit''] = Some 0)"
proof (intro conjI impI)
  assume "\<bar>best_fit\<bar> \<le> 2 ^ 53 \<and> \<bar>partial_fit\<bar> \<le> 2 ^ 53 \<and> \<bar>not_fit\<bar> \<le> 2 ^ 53"
  then have f: "py_float best_fit = Inr (of_int best_fit)"
    "py_float partial_fit = Inr (of_int partial_fit)"
    "py_float not_fit = Inr (of_int not_fit)"
    by (simp_all add: py_float_exact)
  show "\<exists>r'. update_fit_categories best_fit partial_fit not_fit r = Inr r' \<and>
        (\<forall>k. map_of (candidates_by_fit r') k =
           (if k = [''Best Fit''] then Some (of_int best_fit)
            else if k = [''Partial Fit''] then Some (of_int partial_fit)
            else if k = [''Not Fit''] then Some (of_int not_fit)
            else map_of (candidates_by_fit r) k)) \<and>
        r' = r\<lparr>candidates_by_fit := candidates_by_fit r'\<rparr>"
    by (simp add: update_fit_categories_eq [OF f] update_conv')
next
  have f: "py_float 3 = Inr 3" "py_float 1 = Inr 1" "py_float 2 = Inr 2"
    and z: "py_float 0 = Inr 0"
    using py_float_exact [of 3] py_float_exact [of 1] py_float_exact [of 2] py_float_exact [of 0]
    by simp_all
  show "\<exists>r1 r2. update_fit_categories 3 1 2 r = Inr r1 \<and>
      map_of (candidates_by_fit r1) [''Best Fit''] = Some 3 \<and>
      map_of (candidates_by_fit r1) [''Partial Fit''] = Some 1 \<and>
      map_of (candidates_by_fit r1) [''Not Fit''] = Some 2 \<and>
      update_fit_categories 0 0 0 r1 = Inr r2 \<and>
      map_of (candidates_by_fit r2) [''Best Fit''] = Some 0 \<and>
      map_of (candidates_by_fit r2) [''Partial Fit''] = Some 0 \<and>
      map_of (candidates_by_fit r2) [''Not Fit''] = Some 0"
    by (simp add: update_fit_categories_eq [OF f] update_fit_categories_eq [OF z z z]
        update_conv')
qed

theorem update_fit_categories_overwrites_witness:
  "\<bar>9007199254740992 :: int\<bar> \<le> 2 ^ 53 \<and> \<bar>- 4 :: int\<bar> \<le> 2 ^ 53 \<and> \<bar>0 :: int\<bar> \<le> 2 ^ 53 \<and>
   (\<exists>r'. update_fit_categories 9007199254740992 (- 4) 0
            (fresh_registry\<lparr>candidates_by_fit := [([''Best Fit''], 7), ([''Other''], 5)]\<rparr>) =
          Inr r' \<and>
      map_of (candidates_by_fit r') [''Best Fit''] = Some 9007199254740992 \<and>
      map_of (candidates_by_fit r') [''Partial Fit''] = Some (- 4) \<and>
      map_of (candidates_by_fit r') [''Not Fit''] = Some 0 \<and>
      map_of (candidates_by_fit r') [''Other''] = Some 5)"
proof -
  let ?r = "fresh_registry\<lparr>candidates_by_fit := [([''Best Fit''], 7), ([''Other''], 5)]\<rparr>"
  have b: "\<bar>9007199254740992 :: int\<bar> \<le> 2 ^ 53 \<and> \<bar>- 4 :: int\<bar> \<le> 2 ^ 53 \<and> \<bar>0 :: int\<bar> \<le> 2 ^ 53"
    by simp
  with update_fit_categories_overwrites [of 9007199254740992 "- 4" 0 ?r] obtain r' where
    r': "update_fit_categories 9007199254740992 (- 4) 0 ?r = Inr r'"
    "\<forall>k. map_of (candidates_by_fit r') k =
           (if k = [''Best Fit''] then Some (of_int 9007199254740992)
            else if k = [''Partial Fit''] then Some (of_int (- 4))
            else if k = [''Not Fit''] then Some (of_int 0)
            else map_of (candidates_by_fit ?r) k)"
    by blast
  from r'(2) have "map_of (candidates_by_fit r') [''Best Fit''] = Some 9007199254740992 \<and>
      map_of (candidates_by_fit r') [''Partial Fit''] = Some (- 4) \<and>
      map_of (candidates_by_fit r') [''Not Fit''] = Some 0 \<and>
      map_of (candidates_by_fit r') [''Other''] = Some 5"
    by simp
  with b r'(1) show ?thesis by blast
qed

section \<open>Resume uploads\<close>

lemma sum_filter_update:
  "sum_list (map snd (filter (\<lambda>(k, v). Q k) (AList.update k w fam))) =
   sum_list (map snd (filter (\<lambda>(k, v). Q k) fam)) + (if Q k then w - child_or 0 fam k else (0::real))"
  by (induction fam) (auto simp: child_or_def)

lemma status_total_bump:
  "status_total st (bump k fam) = status_total st fam + (if has_status st k then 1 else 0)"
  by (simp add: status_total_def bump_def sum_filter_update)

lemma series_total_bump: "series_total (bump k fam) = series_total fam + 1"
  using sum_filter_update [of "\<lambda>k. True" k "child_or 0 fam k + 1" fam]
  by (simp add: series_total_def bump_def)

lemma has_status_label:
  "(if has_status ''success'' (status_label success # ks) then 1 else 0) +
   (if has_status ''failed'' (status_label success # ks) then 1 else 0) = (1::real)"
  by (simp add: has_status_def status_label_def)

lemma run_uploads:
  "\<exists>r'. run (map (\<lambda>(success, file_type). TrackResumeUpload success file_type) calls) r = Inr r' \<and>
      series_total (resume_uploads_total r') =
        series_total (resume_uploads_total r) + real (length calls) \<and>
      status_total ''success'' (resume_uploads_total r') +
      status_total ''failed'' (resume_uploads_total r') =
        status_total ''success'' (resume_uploads_total r) +
        status_total ''failed'' (resume_uploads_total r) + real (length calls)"
proof (induction calls arbitrary: r)
  case Nil
  then show ?case by simp
next
  case (Cons c calls)
  obtain success file_type where c: "c = (success, file_type)" by (cases c)
  let ?r1 = "r\<lparr>resume_uploads_total :=
                  bump [status_label success, file_type] (resume_uploads_total r)\<rparr>"
  from Cons.IH [of ?r1] obtain r' where r':
    "run (map (\<lambda>(success, file_type). TrackResumeUpload success file_type) calls) ?r1 = Inr r'"
    "series_total (resume_uploads_total r') =
        series_total (resume_uploads_total ?r1) + real (length calls)"
    "status_total ''success'' (resume_uploads_total r') +
      status_total ''failed'' (resume_uploads_total r') =
        status_total ''success'' (resume_uploads_total ?r1) +
        status_total ''failed'' (resume_uploads_total ?r1) + real (length calls)"
    by blast
  have "run (map (\<lambda>(success, file_type). TrackResumeUpload success file_type) (c # calls)) r = Inr r'"
    using r'(1) by (simp add: c track_resume_upload_eq)
  moreover have "series_total (resume_uploads_total r') =
        series_total (resume_uploads_total r) + real (length (c # calls))"
    using r'(2) by (simp add: series_total_bump)
  moreover have "status_total ''success'' (resume_uploads_total r') +
      status_total ''failed'' (resume_uploads_total r') =
        status_total ''success'' (resume_uploads_total r) +
        status_total ''failed'' (resume_uploads_total r) + real (length (c # calls))"
    using r'(3) has_status_label [of success "[file_type]"]
    by (simp add: status_total_bump)
  ultimately show ?case by blast
qed

text \<open>
  C4. Any sequence of \<open>N\<close> calls \<^verbatim>\<open>track_resume_upload(success, file_type)\<close> runs to its end
  and raises the sum of \<open>resume_uploads_total\<close> over all its series, and likewise the sum
  over the series of status \<open>success\<close> plus the sum over those of status \<open>failed\<close>, by
  exactly \<open>N\<close>; from the registry just loaded both sums are \<open>N\<close>. A single call adds
  exactly 1 to the one series labelled with the status of the flag and the given file type,
  and changes no other series and no other instrument.
\<close>

theorem resume_upload_completeness:
  "(\<exists>r'. run (map (\<lambda>(success, file_type). TrackResumeUpload success file_type) calls) r = Inr r' \<and>
      series_total (resume_uploads_total r') =
        series_total (resume_uploads_total r) + real (length calls) \<and>
      status_total ''success'' (resume_uploads_total r') +
      status_total ''failed'' (resume_uploads_total r') =
        status_total ''success'' (resume_uploads_total r) +
        status_total ''failed'' (resume_uploads_total r) + real (length calls)) \<and>
   (\<exists>r'. run (map (\<lambda>(success, file_type). TrackResumeUpload success file_type) calls)
            fresh_registry = Inr r' \<and>
      series_total (resume_uploads_total r') = real (length calls) \<and>
      status_total ''success'' (resume_uploads_total r') +
      status_total ''failed'' (resume_uploads_total r') = real (length calls)) \<and>
   (\<exists>r'. track_resume_upload success file_type r = Inr r' \<and>
      (\<forall>k. map_of (resume_uploads_total r') k =
         (if k = [status_label success, file_type]
          then Some (child_or 0 (resume_uploads_total r) k + 1)
          else map_of (resume_uploads_total r) k)) \<and>
      r' = r\<lparr>resume_uploads_total := resume_uploads_total r'\<rparr>)"
proof (intro conjI)
  show "\<exists>r'. run (map (\<lambda>(success, file_type). TrackResumeUpload success file_type) calls) r = Inr r' \<and>
      series_total (resume_uploads_total r') =
        series_total (resume_uploads_total r) + real (length calls) \<and>
      status_total ''success'' (resume_uploads_total r') +
      status_total ''failed'' (resume_uploads_total r') =
        status_total ''success'' (resume_uploads_total r) +
        status_total ''failed'' (resume_uploads_total r) + real (length calls)"
    by (rule run_uploads)
next
  show "\<exists>r'. run (map (\<lambda>(success, file_type). TrackResumeUpload success file_type) calls)
            fresh_registry = Inr r' \<and>
      series_total (resume_uploads_total r') = real (length calls) \<and>
      status_total ''success'' (resume_uploads_total r') +
      status_total ''failed'' (resume_uploads_total r') = real (length calls)"
    using run_uploads [of calls fresh_registry]
    by (simp add: fresh_registry_def series_total_def status_total_def)
next
  show "\<exists>r'. track_resume_upload success file_type r = Inr r' \<and>
      (\<forall>k. map_of (resume_uploads_total r') k =
         (if k = [status_label success, file_type]
          then Some (child_or 0 (resume_uploads_total r) k + 1)
          else map_of (resume_uploads_total r) k)) \<and>
      r' = r\<lparr>resume_uploads_total := resume_uploads_total r'\<rparr>"
    by (simp add: track_resume_upload_eq map_of_bump)
qed

section \<open>Counters never decrease\<close>

lemma series_le_refl: "series_le fam fam"
  by (auto simp: series_le_def map_of_eq_None_iff split: option.splits)

lemma series_le_trans: "series_le a b \<Longrightarrow> series_le b c \<Longrightarrow> series_le a c"
  unfolding series_le_def
proof
  fix k
  assume ab: "\<forall>k\<in>set (map fst a). case (map_of a k, map_of b k) of
                (Some v, Some v') \<Rightarrow> v \<le> v' | _ \<Rightarrow> False"
    and bc: "\<forall>k\<in>set (map fst b). case (map_of b k, map_of c k) of
                (Some v, Some v') \<Rightarrow> v \<le> v' | _ \<Rightarrow> False"
    and k: "k \<in> set (map fst a)"
  from ab k obtain v v' where v: "map_of a k = Some v" "map_of b k = Some v'" "v \<le> v'"
    by (fastforce split: option.splits)
  from v(2) have "k \<in> set (map fst b)"
    by (metis domI dom_map_of_conv_image_fst set_map)
  with bc v(2) obtain v'' where "map_of c k = Some v''" "v' \<le> v''"
    by (fastforce split: option.splits)
  with v show "case (map_of a k, map_of c k) of (Some v, Some v') \<Rightarrow> v \<le> v' | _ \<Rightarrow> False"
    by simp
qed

lemma series_le_bump: "series_le fam (bump k fam)"
  by (auto simp: series_le_def map_of_bump child_or_def map_of_eq_None_iff split: option.splits)

lemma counters_nondecreasing_refl: "counters_nondecreasing r r"
  by (simp add: counters_nondecreasing_def series_le_refl)

lemma counters_nondecreasing_trans:
  "counters_nondecreasing a b \<Longrightarrow> counters_nondecreasing b c \<Longrightarrow> counters_nondecreasing a c"
  unfolding counters_nondecreasing_def by (blast intro: series_le_trans)

text \<open>
  Returned or raised, a call leaves a well-formed registry whose counters have not
  decreased.
\<close>

lemma perform_nondecreasing:
  assumes "registry_ok r"
  shows "counters_nondecreasing r (state_after (perform c r))"
proof (cases c)
  case (TrackAIAgentCall endpoint success duration)
  have fam: "family_ok ai_agent_latency_buckets (ai_agent_latency r)"
    using assms by (simp add: registry_ok_def)
  show ?thesis
    by (simp add: TrackAIAgentCall track_ai_agent_call_eq [OF fam] counters_nondecreasing_def
        series_le_refl series_le_bump)
next
  case (TrackMatchScore score)
  have h: "histogram_ok match_scores_buckets (match_scores r)"
    using assms by (simp add: registry_ok_def)
  show ?thesis
    by (simp add: TrackMatchScore track_match_score_eq [OF h] counters_nondecreasing_def
        series_le_refl)
next
  case (UpdateFitCategories best_fit partial_fit not_fit)
  show ?thesis
    by (subst UpdateFitCategories, simp, subst update_fit_categories_frame)
      (simp add: counters_nondecreasing_def series_le_refl)
qed (simp_all add: track_resume_upload_eq
      call_track_matching_request_def track_matching_request_eq
      track_user_login_eq call_track_workflow_eq counters_nondecreasing_def series_le_refl
      series_le_bump)

lemma run_nondecreasing:
  "registry_ok r \<Longrightarrow> counters_nondecreasing r (state_after (run cs r))"
proof (induction cs arbitrary: r)
  case Nil
  then show ?case by (simp add: counters_nondecreasing_refl)
next
  case (Cons c cs)
  show ?case
  proof (cases "perform c r")
    case (Inl x)
    with perform_nondecreasing [OF Cons.prems, of c] show ?thesis by simp
  next
    case (Inr r1)
    with perform_nondecreasing [OF Cons.prems, of c] perform_state_ok [OF Cons.prems, of c]
    have "counters_nondecreasing r r1" "registry_ok r1" by simp_all
    with Cons.IH [of r1] Inr show ?thesis
      by (auto intro: counters_nondecreasing_trans)
  qed
qed

lemma run_all_nondecreasing:
  "registry_ok r \<Longrightarrow> counters_nondecreasing r (run_all cs r)"
proof (induction cs arbitrary: r)
  case Nil
  then show ?case by (simp add: counters_nondecreasing_refl)
next
  case (Cons c cs)
  from Cons.IH [OF perform_state_ok [OF Cons.prems, of c]]
    perform_nondecreasing [OF Cons.prems, of c]
  show ?case
    by (auto intro: counters_nondecreasing_trans)
qed

text \<open>
  C6. On a well-formed registry every helper call, with any arguments, leaves every series
  of the ten counters (\<open>resume_uploads_total\<close>, \<open>jd_created_total\<close>,
  \<open>matching_requests_total\<close>, \<open>ai_agent_calls_total\<close>, \<open>user_logins_total\<close>,
  \<open>user_registrations_total\<close>, \<open>workflows_started_total\<close>, \<open>workflows_completed_total\<close>,
  \<open>file_operations_total\<close>, \<open>db_operations_total\<close>) in place with a value at least as
  large as before, whether the call returns or raises; so does every sequence of helper
  calls, stopped at the first exception or continued after it. A call returns unless a
  fit count is too large for a float, and so does a sequence.
\<close>

theorem counters_never_decrease:
  assumes "registry_ok r"
  shows "counters_nondecreasing r (state_after (perform c r)) \<and>
         counters_nondecreasing r (state_after (run cs r)) \<and>
         counters_nondecreasing r (run_all cs r) \<and>
         (no_overflow c \<longrightarrow> (\<exists>r'. perform c r = Inr r' \<and> counters_nondecreasing r r')) \<and>
         (list_all no_overflow cs \<longrightarrow> (\<exists>r'. run cs r = Inr r' \<and> counters_nondecreasing r r'))"
proof (intro conjI impI)
  show "counters_nondecreasing r (state_after (perform c r))"
    using assms by (rule perform_nondecreasing)
  show "counters_nondecreasing r (state_after (run cs r))"
    using assms by (rule run_nondecreasing)
  show "counters_nondecreasing r (run_all cs r)"
    using assms by (rule run_all_nondecreasing)
next
  assume "no_overflow c"
  with perform_ok [OF assms] obtain r' where "perform c r = Inr r'" by blast
  with perform_nondecreasing [OF assms, of c]
  show "\<exists>r'. perform c r = Inr r' \<and> counters_nondecreasing r r'" by simp
next
  assume "list_all no_overflow cs"
  with run_ok [OF assms] obtain r' where "run cs r = Inr r'" by blast
  with run_nondecreasing [OF assms, of cs]
  show "\<exists>r'. run cs r = Inr r' \<and> counters_nondecreasing r r'" by simp
qed

theorem counters_never_decrease_witness:
  "registry_ok (fresh_registry\<lparr>user_logins_total := [([''success''], 5), ([''failed''], 2)]\<rparr>) \<and>
   no_overflow (TrackUserLogin True) \<and>
   (\<exists>r'. perform (TrackUserLogin True)
            (fresh_registry\<lparr>user_logins_total := [([''success''], 5), ([''failed''], 2)]\<rparr>) = Inr r' \<and>
         counters_nondecreasing
            (fresh_registry\<lparr>user_logins_total := [([''success''], 5), ([''failed''], 2)]\<rparr>) r' \<and>
         user_logins_total r' = [([''success''], 6), ([''failed''], 2)]) \<and>
   counters_nondecreasing
     (fresh_registry\<lparr>user_logins_total := [([''success''], 5), ([''failed''], 2)]\<rparr>)
     (state_after (perform (UpdateFitCategories (10 ^ 400) 1 2)
        (fresh_registry\<lparr>user_logins_total := [([''success''], 5), ([''failed''], 2)]\<rparr>)))"
proof -
  let ?r = "fresh_registry\<lparr>user_logins_total := [([''success''], 5), ([''failed''], 2)]\<rparr>"
  have ok: "registry_ok ?r"
    using registry_ok_fresh by (simp add: registry_ok_def)
  have no: "no_overflow (TrackUserLogin True)" by simp
  from counters_never_decrease [OF ok, of "TrackUserLogin True" "[]"] no obtain r' where
    r': "perform (TrackUserLogin True) ?r = Inr r'" "counters_nondecreasing ?r r'"
    by blast
  from r'(1) have "user_logins_total r' = [([''success''], 6), ([''failed''], 2)]"
    by (auto simp: track_user_login_eq bump_def child_or_def status_label_def)
  moreover from counters_never_decrease [OF ok, of "UpdateFitCategories (10 ^ 400) 1 2" "[]"]
  have "counters_nondecreasing ?r
     (state_after (perform (UpdateFitCategories (10 ^ 400) 1 2) ?r))"
    by blast
  ultimately show ?thesis using ok no r' by blast
qed

section \<open>Connection options\<close>

lemma starts_with_iff: "starts_with sub s \<longleftrightarrow> (\<exists>post. s = sub @ post)"
  by (induction sub s rule: starts_with.induct) auto

lemma contains_iff: "contains sub s \<longleftrightarrow> (\<exists>pre post. s = pre @ sub @ post)"
proof (induction s)
  case Nil
  then show ?case by simp
next
  case (Cons c cs)
  show ?case
  proof
    assume "contains sub (c # cs)"
    then consider "starts_with sub (c # cs)" | "contains sub cs" by auto
    then show "\<exists>pre post. c # cs = pre @ sub @ post"
    proof cases
      case 1
      then obtain post where "c # cs = sub @ post" by (auto simp: starts_with_iff)
      then have "c # cs = [] @ sub @ post" by simp
      then show ?thesis by blast
    next
      case 2
      with Cons.IH obtain pre post where "cs = pre @ sub @ post" by blast
      then have "c # cs = (c # pre) @ sub @ post" by simp
      then show ?thesis by blast
    qed
  next
    assume "\<exists>pre post. c # cs = pre @ sub @ post"
    then obtain pre post where eq: "c # cs = pre @ sub @ post" by blast
    show "contains sub (c # cs)"
    proof (cases pre)
      case Nil
      with eq have "starts_with sub (c # cs)" by (auto simp: starts_with_iff)
      then show ?thesis by simp
    next
      case (Cons p pre')
      with eq have "cs = pre' @ sub @ post" by simp
      with Cons.IH have "contains sub cs" by blast
      then show ?thesis by simp
    qed
  qed
qed

text \<open>
  C10. The connection options depend on the URL alone. When \<open>mongodb+srv://\<close> occurs in
  the URL they are the three timeouts (30000, 20000, 20000) and \<open>retryWrites=True\<close>, and
  \<open>tls\<close> is not set; otherwise, when both \<open>mongodb://\<close> and \<open>mongodb.net\<close> occur in it, they
  are \<open>tls=True\<close>, \<open>tlsAllowInvalidCertificates=False\<close> and the same four settings; for
  every other URL they are empty. The synchronous and the asynchronous client are both
  built from the URL of the environment and these options.
\<close>

theorem connection_options_by_url_shape:
  "connection_options url =
     (if \<exists>pre post. url = pre @ ''mongodb+srv://'' @ post then
        [(''serverSelectionTimeoutMS'', IntValue 30000),
         (''connectTimeoutMS'', IntValue 20000),
         (''socketTimeoutMS'', IntValue 20000),
         (''retryWrites'', BoolValue True)]
      else if (\<exists>pre post. url = pre @ ''mongodb://'' @ post) \<and>
              (\<exists>pre post. url = pre @ ''mongodb.net'' @ post) then
        [(''tls'', BoolValue True),
         (''tlsAllowInvalidCertificates'', BoolValue False),
         (''serverSelectionTimeoutMS'', IntValue 30000),
         (''connectTimeoutMS'', IntValue 20000),
         (''socketTimeoutMS'', IntValue 20000),
         (''retryWrites'', BoolValue True)]
      else []) \<and>
   map_of (connection_options url) ''tls'' =
     (if \<exists>pre post. url = pre @ ''mongodb+srv://'' @ post then None
      else if (\<exists>pre post. url = pre @ ''mongodb://'' @ post) \<and>
              (\<exists>pre post. url = pre @ ''mongodb.net'' @ post) then Some (BoolValue True)
      else None) \<and>
   client (load_database_module env) =
     \<lparr>host = MONGODB_URL env, kwargs = connection_options (MONGODB_URL env)\<rparr> \<and>
   async_client (load_database_module env) =
     \<lparr>host = MONGODB_URL env, kwargs = connection_options (MONGODB_URL env)\<rparr>"
  by (simp add: connection_options_def contains_iff load_database_module_def)

text \<open>An SRV URL, a plain Atlas URL, and the default URL of an empty environment.\<close>

lemma connection_options_examples:
  "connection_options ''mongodb+srv://user:pw@cluster0.abcde.mongodb.net/pod_1'' =
     [(''serverSelectionTimeoutMS'', IntValue 30000), (''connectTimeoutMS'', IntValue 20000),
      (''socketTimeoutMS'', IntValue 20000), (''retryWrites'', BoolValue True)]"
  "map_of (connection_options ''mongodb://user:pw@shard0.abcde.mongodb.net:27017/pod_1'') ''tls'' =
     Some (BoolValue True)"
  "connection_options (MONGODB_URL Map.empty) = []"
  by (simp_all add: connection_options_def MONGODB_URL_def getenv_def)

end
